theory Spec2Isabelle
  imports Main "HOL-Library.Sublist"
begin

section \<open>Strings\<close>

text \<open>
  A Go string is a sequence of bytes, here a \<^typ>\<open>string\<close> (a list of 8-bit characters).
  The functions of package \<open>strings\<close> that the program calls are modelled on bytes, for the
  Unix build of the program: \<open>os.PathSeparator\<close> is the slash.
\<close>

abbreviation PathSeparator :: char where
  "PathSeparator \<equiv> CHR ''/''"

text \<open>
  \<open>unicode.IsSpace\<close>: the white space runes in their UTF-8 encoding. Tab, line feed,
  vertical tab, form feed, carriage return and space are single bytes; U+0085 and U+00A0
  take two bytes; U+1680, U+2000 to U+200A, U+2028, U+2029, U+202F, U+205F and U+3000 take
  three. A byte sequence that is not one of these is either another rune or an invalid
  encoding, and is not white space.
\<close>

definition spaceRunes :: "string list" where
  "spaceRunes =
    [[CHR 0x09], [CHR 0x0A], [CHR 0x0B], [CHR 0x0C], [CHR 0x0D], [CHR 0x20],
     [CHR 0xC2, CHR 0x85], [CHR 0xC2, CHR 0xA0],
     [CHR 0xE1, CHR 0x9A, CHR 0x80],
     [CHR 0xE2, CHR 0x80, CHR 0x80], [CHR 0xE2, CHR 0x80, CHR 0x81],
     [CHR 0xE2, CHR 0x80, CHR 0x82], [CHR 0xE2, CHR 0x80, CHR 0x83],
     [CHR 0xE2, CHR 0x80, CHR 0x84], [CHR 0xE2, CHR 0x80, CHR 0x85],
     [CHR 0xE2, CHR 0x80, CHR 0x86], [CHR 0xE2, CHR 0x80, CHR 0x87],
     [CHR 0xE2, CHR 0x80, CHR 0x88], [CHR 0xE2, CHR 0x80, CHR 0x89],
     [CHR 0xE2, CHR 0x80, CHR 0x8A],
     [CHR 0xE2, CHR 0x80, CHR 0xA8], [CHR 0xE2, CHR 0x80, CHR 0xA9],
     [CHR 0xE2, CHR 0x80, CHR 0xAF], [CHR 0xE2, CHR 0x81, CHR 0x9F],
     [CHR 0xE3, CHR 0x80, CHR 0x80]]"

text \<open>The width in bytes of a white space rune at the start (at the end) of \<open>s\<close>, or 0.\<close>

definition leadingSpace :: "string \<Rightarrow> nat" where
  "leadingSpace s =
     (case find (\<lambda>w. prefix w s) spaceRunes of None \<Rightarrow> 0 | Some w \<Rightarrow> length w)"

definition trailingSpace :: "string \<Rightarrow> nat" where
  "trailingSpace s =
     (case find (\<lambda>w. suffix w s) spaceRunes of None \<Rightarrow> 0 | Some w \<Rightarrow> length w)"

lemma leadingSpace_le: "leadingSpace s \<le> length s"
  by (auto simp: leadingSpace_def find_Some_iff prefix_length_le split: option.splits)

lemma trailingSpace_le: "trailingSpace s \<le> length s"
  by (auto simp: trailingSpace_def find_Some_iff suffix_length_le split: option.splits)

function trimLeftSpace :: "string \<Rightarrow> string" where
  "trimLeftSpace s =
     (if leadingSpace s = 0 then s else trimLeftSpace (drop (leadingSpace s) s))"
  by pat_completeness auto
termination
proof (relation "measure length")
  fix s assume "leadingSpace s \<noteq> 0"
  with leadingSpace_le [of s] show "(drop (leadingSpace s) s, s) \<in> measure length"
    by simp
qed simp

function trimRightSpace :: "string \<Rightarrow> string" where
  "trimRightSpace s =
     (if trailingSpace s = 0 then s
      else trimRightSpace (take (length s - trailingSpace s) s))"
  by pat_completeness auto
termination
proof (relation "measure length")
  fix s assume "trailingSpace s \<noteq> 0"
  with trailingSpace_le [of s]
  show "(take (length s - trailingSpace s) s, s) \<in> measure length"
    by simp
qed simp

text \<open>\<open>strings.TrimSpace\<close>: all leading and trailing white space removed.\<close>

definition TrimSpace :: "string \<Rightarrow> string" where
  "TrimSpace s = trimRightSpace (trimLeftSpace s)"

text \<open>
  \<open>strings.ReplaceAll\<close> for a non-empty \<open>old\<close>: the non-overlapping occurrences of
  \<open>old\<close> are replaced from left to right in one pass. (The program never passes an empty
  \<open>old\<close>; for that argument the model returns \<open>s\<close>.)
\<close>

function ReplaceAll :: "string \<Rightarrow> string \<Rightarrow> string \<Rightarrow> string" where
  "ReplaceAll s old new =
     (if s = [] \<or> old = [] then s
      else if prefix old s then new @ ReplaceAll (drop (length old) s) old new
      else hd s # ReplaceAll (tl s) old new)"
  by pat_completeness auto
termination
  by (relation "measure (\<lambda>(s, old, new). length s)") auto

text \<open>\<open>strings.Contains\<close>, \<open>strings.HasPrefix\<close>, \<open>strings.HasSuffix\<close>.\<close>

fun Contains :: "string \<Rightarrow> string \<Rightarrow> bool" where
  "Contains [] substr = (substr = [])"
| "Contains (c # s) substr = (prefix substr (c # s) \<or> Contains s substr)"

abbreviation HasPrefix :: "string \<Rightarrow> string \<Rightarrow> bool" where
  "HasPrefix s p \<equiv> prefix p s"

abbreviation HasSuffix :: "string \<Rightarrow> string \<Rightarrow> bool" where
  "HasSuffix s p \<equiv> suffix p s"

declare trimLeftSpace.simps [simp del] trimRightSpace.simps [simp del]
  ReplaceAll.simps [simp del]

section \<open>Path normalisation (groot\_utils.go)\<close>

text \<open>\<open>replaceStringByte\<close>: every byte \<open>old\<close> of \<open>s\<close> becomes \<open>new\<close>.\<close>

definition replaceStringByte :: "string \<Rightarrow> char \<Rightarrow> char \<Rightarrow> string" where
  "replaceStringByte s old new = map (\<lambda>c. if c = old then new else c) s"

text \<open>
  \<open>ensureCleanPath\<close>: trim, turn the platform separator into a slash, trim, turn the slash
  into the platform separator, then replace every doubled separator by one, in a single
  \<open>ReplaceAll\<close> pass.
\<close>

definition ensureCleanPath :: "string \<Rightarrow> string" where
  "ensureCleanPath path =
     (let path1 = replaceStringByte (TrimSpace path) PathSeparator (CHR ''/'');
          path2 = replaceStringByte (TrimSpace path1) (CHR ''/'') PathSeparator
      in ReplaceAll path2 [PathSeparator, PathSeparator] [PathSeparator])"

section \<open>Lexical path operations (package path/filepath, Unix)\<close>

text \<open>
  The program calls \<open>filepath.Clean\<close> (through \<open>Dir\<close>, \<open>Join\<close> and \<open>Rel\<close>), \<open>Dir\<close>,
  \<open>Base\<close>, \<open>IsAbs\<close>, \<open>Join\<close> and \<open>Rel\<close>. They are purely lexical. A path is read as its
  elements, the pieces between separators.
\<close>

text \<open>\<open>strings.Split(s, "/")\<close> and \<open>strings.Join(elems, "/")\<close>.\<close>

function splitSep :: "string \<Rightarrow> string list" where
  "splitSep s =
     (if PathSeparator \<in> set s
      then takeWhile (\<lambda>c. c \<noteq> PathSeparator) s
             # splitSep (tl (dropWhile (\<lambda>c. c \<noteq> PathSeparator) s))
      else [s])"
  by pat_completeness auto
termination
proof (relation "measure length")
  fix s :: string
  assume "PathSeparator \<in> set s"
  then have "dropWhile (\<lambda>c. c \<noteq> PathSeparator) s \<noteq> []"
    by (simp add: dropWhile_eq_Nil_conv)
  moreover have "length (dropWhile (\<lambda>c. c \<noteq> PathSeparator) s) \<le> length s"
    by (rule length_dropWhile_le)
  ultimately show "(tl (dropWhile (\<lambda>c. c \<noteq> PathSeparator) s), s) \<in> measure length"
    by (cases "dropWhile (\<lambda>c. c \<noteq> PathSeparator) s") auto
qed simp

declare splitSep.simps [simp del]

fun joinSep :: "string list \<Rightarrow> string" where
  "joinSep [] = []"
| "joinSep [x] = x"
| "joinSep (x # y # ys) = x @ PathSeparator # joinSep (y # ys)"

text \<open>
  \<open>filepath.Clean\<close> works through the elements from left to right and keeps the elements of
  the result: an empty element and \<open>.\<close> are dropped; \<open>..\<close> removes the last kept element if
  that is not itself a kept \<open>..\<close>, is dropped at the top of a rooted path, and is kept at the
  top of a relative one; any other element is kept.
\<close>

fun cleanElems :: "bool \<Rightarrow> string list \<Rightarrow> string list \<Rightarrow> string list" where
  "cleanElems rooted out [] = out"
| "cleanElems rooted out (e # es) =
     (if e = [] \<or> e = ''.'' then cleanElems rooted out es
      else if e = ''..'' then
        (if out \<noteq> [] \<and> last out \<noteq> ''..'' then cleanElems rooted (butlast out) es
         else if \<not> rooted then cleanElems rooted (out @ [''..'']) es
         else cleanElems rooted out es)
      else cleanElems rooted (out @ [e]) es)"

definition Clean :: "string \<Rightarrow> string" where
  "Clean path =
     (if path = [] then ''.''
      else
        let rooted = (hd path = PathSeparator);
            out = cleanElems rooted [] (splitSep path)
        in if rooted then PathSeparator # joinSep out
           else if out = [] then ''.''
           else joinSep out)"

text \<open>
  \<open>filepath.Dir\<close>: everything up to and including the last separator, cleaned.
\<close>

definition dirPart :: "string \<Rightarrow> string" where
  "dirPart path = rev (dropWhile (\<lambda>c. c \<noteq> PathSeparator) (rev path))"

definition Dir :: "string \<Rightarrow> string" where
  "Dir path = Clean (dirPart path)"

text \<open>
  \<open>filepath.Base\<close>: the last element, after trailing separators are removed; \<open>.\<close> for the
  empty path and the separator for a path of separators only.
\<close>

definition Base :: "string \<Rightarrow> string" where
  "Base path =
     (if path = [] then ''.''
      else
        let p = rev (dropWhile (\<lambda>c. c = PathSeparator) (rev path));
            b = rev (takeWhile (\<lambda>c. c \<noteq> PathSeparator) (rev p))
        in if b = [] then [PathSeparator] else b)"

definition IsAbs :: "string \<Rightarrow> bool" where
  "IsAbs path = HasPrefix path [PathSeparator]"

text \<open>
  \<open>filepath.Join\<close>: leading empty elements are ignored, the rest is joined with the
  separator and cleaned; the result is empty when every element is.
\<close>

definition Join :: "string list \<Rightarrow> string" where
  "Join elem =
     (let rest = dropWhile (\<lambda>e. e = []) elem
      in if rest = [] then [] else Clean (joinSep rest))"

subsection \<open>Elements of a path\<close>

lemma splitSep_no_sep: "PathSeparator \<notin> set e \<Longrightarrow> splitSep e = [e]"
  by (simp add: splitSep.simps)

lemma takeWhile_elem:
  "PathSeparator \<notin> set e \<Longrightarrow> takeWhile (\<lambda>c. c \<noteq> PathSeparator) (e @ PathSeparator # r) = e"
  by (induction e) auto

lemma dropWhile_elem:
  "PathSeparator \<notin> set e \<Longrightarrow>
     dropWhile (\<lambda>c. c \<noteq> PathSeparator) (e @ PathSeparator # r) = PathSeparator # r"
  by (induction e) auto

lemma splitSep_append_sep:
  assumes "PathSeparator \<notin> set e"
  shows "splitSep (e @ PathSeparator # r) = e # splitSep r"
proof -
  have "takeWhile (\<lambda>c. c \<noteq> PathSeparator) (e @ PathSeparator # r) = e"
    using assms by (rule takeWhile_elem)
  moreover have "dropWhile (\<lambda>c. c \<noteq> PathSeparator) (e @ PathSeparator # r) = PathSeparator # r"
    using assms by (rule dropWhile_elem)
  ultimately show ?thesis
    by (subst splitSep.simps) simp
qed

lemma splitSep_Nil [simp]: "splitSep [] = [[]]"
  by (simp add: splitSep.simps)

lemma splitSep_sep_Cons [simp]: "splitSep (PathSeparator # r) = [] # splitSep r"
  using splitSep_append_sep [of "[]" r] by simp

text \<open>A string is an element without a separator, or such an element, a separator and a rest.\<close>

lemma string_sep_cases:
  obtains (elem) "PathSeparator \<notin> set s"
  | (more) e r where "s = e @ PathSeparator # r" and "PathSeparator \<notin> set e"
proof (cases "PathSeparator \<in> set s")
  case True
  then obtain e r where "s = e @ PathSeparator # r" and "PathSeparator \<notin> set e"
    by (meson split_list_first)
  then show ?thesis by (rule more)
next
  case False
  then show ?thesis by (rule elem)
qed

lemma splitSep_induct [case_names elem more]:
  assumes "\<And>e. PathSeparator \<notin> set e \<Longrightarrow> P e"
    and "\<And>e r. PathSeparator \<notin> set e \<Longrightarrow> P r \<Longrightarrow> P (e @ PathSeparator # r)"
  shows "P s"
proof (induction s rule: length_induct)
  case (1 s)
  show ?case
  proof (cases s rule: string_sep_cases)
    case elem
    then show ?thesis by (rule assms(1))
  next
    case (more e r)
    then have "length r < length s" by simp
    with 1 have "P r" by blast
    with more show ?thesis by (simp add: assms(2))
  qed
qed

lemma splitSep_not_Nil [simp]: "splitSep s \<noteq> []"
  by (cases s rule: string_sep_cases) (auto simp: splitSep_no_sep splitSep_append_sep)

lemma splitSep_elems: "e \<in> set (splitSep s) \<Longrightarrow> PathSeparator \<notin> set e"
  by (induction s arbitrary: e rule: splitSep_induct)
     (auto simp: splitSep_no_sep splitSep_append_sep)

lemma joinSep_Cons: "ys \<noteq> [] \<Longrightarrow> joinSep (x # ys) = x @ PathSeparator # joinSep ys"
  by (cases ys) auto

lemma joinSep_splitSep [simp]: "joinSep (splitSep s) = s"
  by (induction s rule: splitSep_induct)
     (auto simp: splitSep_no_sep splitSep_append_sep joinSep_Cons)

lemma splitSep_joinSep:
  "es \<noteq> [] \<Longrightarrow> \<forall>e\<in>set es. PathSeparator \<notin> set e \<Longrightarrow> splitSep (joinSep es) = es"
proof (induction es rule: joinSep.induct)
  case 1
  then show ?case by simp
next
  case (2 x)
  then show ?case by (simp add: splitSep_no_sep)
next
  case (3 x y ys)
  then show ?case by (simp add: splitSep_append_sep)
qed

lemma splitSep_snoc_sep: "splitSep (s @ [PathSeparator]) = splitSep s @ [[]]"
  by (induction s rule: splitSep_induct)
     (auto simp: splitSep_no_sep splitSep_append_sep)

text \<open>The bytes a list of elements takes when each is followed by one separator.\<close>

definition elemsSize :: "string list \<Rightarrow> nat" where
  "elemsSize es = sum_list (map (\<lambda>e. Suc (length e)) es)"

lemma elemsSize_simps [simp]:
  "elemsSize [] = 0"
  "elemsSize (e # es) = Suc (length e) + elemsSize es"
  "elemsSize (es @ fs) = elemsSize es + elemsSize fs"
  by (simp_all add: elemsSize_def)

lemma elemsSize_butlast: "elemsSize (butlast es) \<le> elemsSize es"
  by (induction es) auto

lemma length_joinSep: "es \<noteq> [] \<Longrightarrow> Suc (length (joinSep es)) = elemsSize es"
  by (induction es rule: joinSep.induct) auto

lemma elemsSize_splitSep: "elemsSize (splitSep s) = Suc (length s)"
  using length_joinSep [of "splitSep s"] by simp

lemma cleanElems_snoc_empty: "cleanElems rooted out (es @ [[]]) = cleanElems rooted out es"
  by (induction es arbitrary: out) auto

lemma elemsSize_cleanElems:
  "elemsSize (cleanElems rooted out es) \<le> elemsSize out + elemsSize es"
proof (induction es arbitrary: out)
  case Nil
  then show ?case by simp
next
  case (Cons e es)
  have b: "elemsSize (cleanElems rooted (butlast out) es) \<le> elemsSize out + elemsSize es"
    using Cons.IH [of "butlast out"] elemsSize_butlast [of out] by linarith
  have k: "elemsSize (cleanElems rooted out es) \<le> elemsSize out + elemsSize es"
    by (rule Cons.IH)
  have p: "elemsSize (cleanElems rooted (out @ [e]) es)
             \<le> elemsSize out + Suc (length e) + elemsSize es"
    using Cons.IH [of "out @ [e]"] by simp
  show ?case
    using b k p by auto
qed

text \<open>Cleaning a path that ends in a separator gives the root, the dot, or a shorter path.\<close>

lemma Clean_trailing_sep:
  "Clean (s @ [PathSeparator]) = [PathSeparator]
     \<or> Clean (s @ [PathSeparator]) = ''.''
     \<or> length (Clean (s @ [PathSeparator])) < length (s @ [PathSeparator])"
proof (cases "hd (s @ [PathSeparator]) = PathSeparator")
  case rooted: True
  show ?thesis
  proof (cases s)
    case Nil
    then show ?thesis by (simp add: Clean_def)
  next
    case (Cons c r)
    with rooted have c: "c = PathSeparator" by simp
    define out where "out = cleanElems True [] (splitSep r)"
    have out: "cleanElems True [] (splitSep (s @ [PathSeparator])) = out"
      by (simp add: Cons c splitSep_snoc_sep cleanElems_snoc_empty out_def)
    have cl: "Clean (s @ [PathSeparator]) = PathSeparator # joinSep out"
      using rooted out by (simp add: Clean_def)
    show ?thesis
    proof (cases "out = []")
      case True
      with cl show ?thesis by simp
    next
      case False
      have "elemsSize out \<le> elemsSize (splitSep r)"
        using elemsSize_cleanElems [of True "[]" "splitSep r"] by (simp add: out_def)
      then have "elemsSize out \<le> Suc (length r)"
        by (simp add: elemsSize_splitSep)
      with length_joinSep [OF False] have "length (joinSep out) \<le> length r"
        by simp
      with cl Cons show ?thesis by simp
    qed
  qed
next
  case relative: False
  define out where "out = cleanElems False [] (splitSep s)"
  have out: "cleanElems False [] (splitSep (s @ [PathSeparator])) = out"
    by (simp add: splitSep_snoc_sep cleanElems_snoc_empty out_def)
  have cl: "Clean (s @ [PathSeparator]) = (if out = [] then ''.'' else joinSep out)"
    using relative out by (simp add: Clean_def)
  show ?thesis
  proof (cases "out = []")
    case True
    with cl show ?thesis by simp
  next
    case False
    have "elemsSize out \<le> elemsSize (splitSep s)"
      using elemsSize_cleanElems [of False "[]" "splitSep s"] by (simp add: out_def)
    then have "elemsSize out \<le> Suc (length s)"
      by (simp add: elemsSize_splitSep)
    with length_joinSep [OF False] have "length (joinSep out) \<le> length s"
      by simp
    with cl False show ?thesis by simp
  qed
qed

lemma dirPart_no_sep: "PathSeparator \<notin> set path \<Longrightarrow> dirPart path = []"
  by (auto simp: dirPart_def dropWhile_eq_Nil_conv)

lemma dirPart_sep:
  "PathSeparator \<notin> set e \<Longrightarrow> dirPart (s @ PathSeparator # e) = s @ [PathSeparator]"
  using dropWhile_elem [of "rev e" "rev s"] by (simp add: dirPart_def)

text \<open>A path is an element without separator, or a directory part and a last element.\<close>

lemma path_last_cases:
  obtains (elem) "PathSeparator \<notin> set path"
  | (dir) s e where "path = s @ PathSeparator # e" and "PathSeparator \<notin> set e"
proof (cases "PathSeparator \<in> set path")
  case True
  then obtain s e where "path = s @ PathSeparator # e" and "PathSeparator \<notin> set e"
    by (meson split_list_last)
  then show ?thesis by (rule dir)
next
  case False
  then show ?thesis by (rule elem)
qed

lemma Clean_Nil [simp]: "Clean [] = ''.''"
  by (simp add: Clean_def)

lemma Clean_root [simp]: "Clean [PathSeparator] = [PathSeparator]"
  by (simp add: Clean_def)

text \<open>The measure under which \<open>Dir\<close> descends: 0 at its fixed points, else the length plus 1.\<close>

definition walkMeasure :: "string \<Rightarrow> nat" where
  "walkMeasure path =
     (if path = ''.'' \<or> path = [PathSeparator] then 0 else Suc (length path))"

lemma Dir_descends: "path \<noteq> Dir path \<Longrightarrow> walkMeasure (Dir path) < walkMeasure path"
proof (cases path rule: path_last_cases)
  case elem
  then have "Dir path = ''.''"
    by (simp add: Dir_def dirPart_no_sep)
  moreover assume "path \<noteq> Dir path"
  ultimately show ?thesis
    using elem by (auto simp: walkMeasure_def)
next
  case (dir s e)
  assume neq: "path \<noteq> Dir path"
  have d: "Dir path = Clean (s @ [PathSeparator])"
    using dir by (simp add: Dir_def dirPart_sep)
  have "path \<noteq> [PathSeparator]"
  proof
    assume "path = [PathSeparator]"
    then have "Dir path = path" by (simp add: Dir_def dirPart_def)
    with neq show False by simp
  qed
  moreover have "path \<noteq> ''.''"
    using dir by (auto simp: append_eq_Cons_conv)
  ultimately have m: "walkMeasure path = Suc (length path)"
    by (simp add: walkMeasure_def)
  from Clean_trailing_sep [of s] d
  have "Dir path = [PathSeparator] \<or> Dir path = ''.''
          \<or> length (Dir path) < length (s @ [PathSeparator])"
    by simp
  then show ?thesis
    using m dir by (auto simp: walkMeasure_def)
qed

section \<open>The ancestor chain\<close>

text \<open>
  \<open>IterateThroughPath\<close>: the loop appends \<open>path\<close> and moves to \<open>filepath.Dir(path)\<close> while
  the two differ; the last path, equal to its own \<open>Dir\<close>, is appended after the loop.
\<close>

function iterateLoop :: "string \<Rightarrow> string list" where
  "iterateLoop path =
     (if path \<noteq> Dir path then path # iterateLoop (Dir path) else [path])"
  by pat_completeness auto
termination
  by (relation "measure walkMeasure") (auto simp: Dir_descends)

declare iterateLoop.simps [simp del]

definition IterateThroughPath :: "string \<Rightarrow> string list" where
  "IterateThroughPath path = iterateLoop (ensureCleanPath path)"

section \<open>Errors\<close>

text \<open>
  The three sentinel errors of the package, the errors it makes with \<open>ers.New\<close> (told apart
  by their message), and the errors that come from outside the package (\<open>os\<close>,
  \<open>path/filepath\<close>, \<open>godotenv\<close>), kept as an opaque description. A nil error is \<open>None\<close>.
\<close>

datatype error =
    ErrNoEnvDefined
  | ErrMissingEnvs
  | ErrBadEnvsDefined
  | ErsNew string
  | External string

text \<open>
  Modelled from the spec: \<open>ers.Wrap\<close> (package \<open>github.com/ovila98/ers\<close> is not among the
  sources). An error is "wrapped and bubbled up unchanged": wrapping keeps the identity that
  \<open>errors.Is\<close> tests, and a nil error stays nil.
\<close>

definition Wrap :: "error option \<Rightarrow> error option" where
  "Wrap err = err"

section \<open>The process and its surroundings\<close>

text \<open>
  What the program reads from outside itself: the file system (\<open>os.Stat\<close>, \<open>os.Lstat\<close>,
  the matches \<open>filepath.Glob\<close> finds for a pattern with meta characters, the variables an
  env file defines), the running process (\<open>os.Executable\<close>, the source file that
  \<open>runtime.Caller\<close> reports for the frame \<open>GetMainFile\<close> picks, \<open>os.TempDir\<close>) and the
  order in which \<open>range\<close> visits the keys of a map, which Go leaves unspecified: keys are
  visited by ascending rank, so every order is the choice of some ranking.
\<close>

datatype file_kind = NonDirectory | Directory

record system =
  stat :: "string \<Rightarrow> string + file_kind"
  lstat :: "string \<Rightarrow> string + file_kind"
  globMeta :: "string \<Rightarrow> string + string list"
  dotenv :: "string \<Rightarrow> string + (string \<times> string) list"
  Executable :: "string + string"
  callerFile :: string
  TempDir :: string
  mapOrder :: "string \<Rightarrow> nat"

text \<open>
  What the program changes: its package variable \<open>grootEnv\<close>, the name of the environment
  variable that holds the root (\<open>GROOT\<close> when the program starts); the environment of the
  process; and the calls it makes to the env file loader (each call with its list of
  files, oldest first).
\<close>

record world =
  grootEnv :: string
  environ :: "string \<rightharpoonup> string"
  loaded :: "string list list"

text \<open>
  A key names an environment variable when it is not empty and has neither \<open>=\<close> nor a NUL
  byte. \<open>os.Setenv\<close> fails, and changes nothing, for any other key and for a value with a
  NUL byte; the program ignores its error. \<open>os.Getenv\<close> gives the empty string for a
  variable that is not set, and so for a key that names none.
\<close>

definition validKey :: "string \<Rightarrow> bool" where
  "validKey key \<longleftrightarrow> key \<noteq> [] \<and> CHR ''='' \<notin> set key \<and> CHR 0x00 \<notin> set key"

definition Getenv :: "world \<Rightarrow> string \<Rightarrow> string" where
  "Getenv w key =
     (if validKey key then (case environ w key of None \<Rightarrow> [] | Some v \<Rightarrow> v) else [])"

definition Setenv :: "string \<Rightarrow> string \<Rightarrow> world \<Rightarrow> world" where
  "Setenv key val w =
     (if validKey key \<and> CHR 0x00 \<notin> set val
      then w\<lparr>environ := (environ w)(key \<mapsto> val)\<rparr>
      else w)"

definition Unsetenv :: "string \<Rightarrow> world \<Rightarrow> world" where
  "Unsetenv key w = w\<lparr>environ := (environ w)(key := None)\<rparr>"

text \<open>\<open>os.Stat\<close> and \<open>os.Lstat\<close> refuse a path with a NUL byte before asking the file system.\<close>

definition Stat :: "system \<Rightarrow> string \<Rightarrow> string + file_kind" where
  "Stat sys name =
     (if CHR 0x00 \<in> set name then Inl ''invalid argument'' else stat sys name)"

definition Lstat :: "system \<Rightarrow> string \<Rightarrow> string + file_kind" where
  "Lstat sys name =
     (if CHR 0x00 \<in> set name then Inl ''invalid argument'' else lstat sys name)"

text \<open>
  \<open>filepath.Glob\<close>: a pattern without the meta characters \<open>*\<close>, \<open>?\<close>, \<open>[\<close> and backslash is
  well formed and matches itself if \<open>Lstat\<close> finds it, nothing otherwise; for any other
  pattern the file system gives the matches, or the pattern is malformed.
\<close>

definition hasMeta :: "string \<Rightarrow> bool" where
  "hasMeta pattern \<longleftrightarrow>
     (\<exists>c\<in>set pattern. c = CHR ''*'' \<or> c = CHR ''?'' \<or> c = CHR ''['' \<or> c = CHR 0x5C)"

definition Glob :: "system \<Rightarrow> string \<Rightarrow> error + string list" where
  "Glob sys pattern =
     (if hasMeta pattern then
        (case globMeta sys pattern of
           Inl msg \<Rightarrow> Inl (External msg)
         | Inr matches \<Rightarrow> Inr matches)
      else
        (case Lstat sys pattern of
           Inl msg \<Rightarrow> Inr []
         | Inr fi \<Rightarrow> Inr [pattern]))"

text \<open>
  \<open>godotenv.Load\<close>: the files are read in order. The variables of a file that the
  environment does not have yet when the file is reached are set (the error of \<open>Setenv\<close> is
  ignored), those it has are left alone; the first file that cannot be read or parsed ends
  the call with its error. Without a file name, the file \<open>.env\<close> is read.
\<close>

definition loadFile :: "system \<Rightarrow> string \<Rightarrow> world \<Rightarrow> error option \<times> world" where
  "loadFile sys filename w =
     (case dotenv sys filename of
        Inl msg \<Rightarrow> (Some (External msg), w)
      | Inr envMap \<Rightarrow>
          (None, fold (\<lambda>(key, val) w'. if environ w key = None then Setenv key val w' else w')
                   envMap w))"

fun loadFiles :: "system \<Rightarrow> string list \<Rightarrow> world \<Rightarrow> error option \<times> world" where
  "loadFiles sys [] w = (None, w)"
| "loadFiles sys (filename # filenames) w =
     (case loadFile sys filename w of
        (Some err, w') \<Rightarrow> (Some err, w')
      | (None, w') \<Rightarrow> loadFiles sys filenames w')"

definition Load :: "system \<Rightarrow> string list \<Rightarrow> world \<Rightarrow> error option \<times> world" where
  "Load sys filenames w =
     (let (err, w') = loadFiles sys (if filenames = [] then [''.env''] else filenames) w
      in (err, w'\<lparr>loaded := loaded w' @ [filenames]\<rparr>))"

section \<open>File names and files (groot\_utils.go)\<close>

text \<open>
  \<open>cleanFilenames\<close>: each name is trimmed and its separators turned into slashes; an empty
  name and a name with a slash are skipped; the others become the keys of a map, and the
  result lists the keys in the order \<open>range\<close> visits them.
\<close>

definition cleanFilenames :: "(string \<Rightarrow> nat) \<Rightarrow> string list \<Rightarrow> string list" where
  "cleanFilenames order filenames =
     sort_key order
       (remdups
          (filter (\<lambda>filename. \<not> (filename = [] \<or> Contains filename ''/''))
             (map (\<lambda>filename. replaceStringByte (TrimSpace filename) PathSeparator (CHR ''/''))
                filenames)))"

text \<open>
  \<open>findFiles\<close>: the matches of every file name in the directory, in the order of the names;
  the first pattern error ends the search.
\<close>

fun findFiles :: "system \<Rightarrow> string \<Rightarrow> string list \<Rightarrow> error + string list" where
  "findFiles sys dirPath [] = Inr []"
| "findFiles sys dirPath (fileName # fileNames) =
     (case Glob sys (Join [dirPath, fileName]) of
        Inl err \<Rightarrow> Inl err
      | Inr files \<Rightarrow>
          (case findFiles sys dirPath fileNames of
             Inl err \<Rightarrow> Inl err
           | Inr foundFiles \<Rightarrow> Inr (files @ foundFiles)))"

section \<open>The project directory\<close>

text \<open>
  \<open>strings.ToUpper\<close> of a string of one byte: an ASCII lower case letter becomes upper
  case, another ASCII byte stays, and a byte from 0x80 on, not a rune by itself, becomes the
  replacement rune U+FFFD.
\<close>

definition toUpperByte :: "char \<Rightarrow> string" where
  "toUpperByte c =
     (let n = (of_char c :: nat)
      in if 97 \<le> n \<and> n \<le> 122 then [char_of (n - 32)]
         else if n < 128 then [c]
         else [CHR 0xEF, CHR 0xBF, CHR 0xBD])"

definition GetMainFile :: "system \<Rightarrow> error + string" where
  "GetMainFile sys =
     (let goFile = callerFile sys
      in if \<not> HasSuffix goFile ''.go'' then Inl (ErsNew ''main *.go file not found'')
         else if length goFile > 1 then Inr (toUpperByte (hd goFile) @ tl goFile)
         else Inr goFile)"

definition GetProjectDir :: "system \<Rightarrow> error + string" where
  "GetProjectDir sys =
     (case Executable sys of
        Inl msg \<Rightarrow> Inl (External msg)
      | Inr execPath \<Rightarrow>
          let execDir = Dir execPath in
          (case GetMainFile sys of
             Inl err \<Rightarrow> Inl err
           | Inr goFile \<Rightarrow>
               let goDir = Dir goFile; tempDir = TempDir sys in
               if Contains execDir tempDir then Inr goDir
               else
                 (case Stat sys execDir of
                    Inl msg \<Rightarrow> Inl (External msg)
                  | Inr fi \<Rightarrow>
                      if fi = Directory then Inr execDir
                      else Inl (ErsNew ''unable to get project dir''))))"

section \<open>Setting the root\<close>

text \<open>
  \<open>SetGrootKey\<close> changes the name of the variable that holds the root; only a key that is
  empty after trimming is refused.
\<close>

definition SetGrootKey :: "world \<Rightarrow> string \<Rightarrow> error option \<times> world" where
  "SetGrootKey w key0 =
     (let key = TrimSpace key0 in
      if key = [] then (Some (ErsNew ''key cannot be empty''), w)
      else (None, w\<lparr>grootEnv := key\<rparr>))"

text \<open>The root is the value of the environment variable that \<open>grootEnv\<close> names.\<close>

definition GetRoot :: "world \<Rightarrow> string" where
  "GetRoot w = Getenv w (grootEnv w)"

text \<open>
  The loop of \<open>SetRoot\<close> over the ancestor chain: in each directory the env files found are
  appended; the first directory in which \<open>os.Stat\<close> finds the entry file, and not as a
  directory, is stored as the root and ends the loop.
\<close>

fun walk ::
  "system \<Rightarrow> string \<Rightarrow> string list \<Rightarrow> string list \<Rightarrow> world \<Rightarrow> string list
     \<Rightarrow> error + (string list \<times> world)" where
  "walk sys entryFile cleanEnvFilenames foundEnvPaths w [] = Inr (foundEnvPaths, w)"
| "walk sys entryFile cleanEnvFilenames foundEnvPaths w (path # paths) =
     (case findFiles sys path cleanEnvFilenames of
        Inl err \<Rightarrow> Inl err
      | Inr found \<Rightarrow>
          if Stat sys (Join [path, entryFile]) = Inr NonDirectory
          then Inr (foundEnvPaths @ found, Setenv (grootEnv w) path w)
          else walk sys entryFile cleanEnvFilenames (foundEnvPaths @ found) w paths)"

text \<open>
  The first half of \<open>SetRoot\<close>, up to the list of env files to load: the checks of the
  arguments, the project directory, the loop, the root read back from the environment, and
  the entry file added to the list if its name ends in \<open>.env\<close>.
\<close>

definition definedEnvsFlag :: "string list \<Rightarrow> bool" where
  "definedEnvsFlag envFiles \<longleftrightarrow> TrimSpace (concat envFiles) \<noteq> []"

definition resolveRoot ::
  "system \<Rightarrow> world \<Rightarrow> string \<Rightarrow> string list \<Rightarrow> (error + string list) \<times> world" where
  "resolveRoot sys w entryFile0 envFiles =
     (let entryFile = TrimSpace entryFile0 in
      if entryFile = [] then (Inl (ErsNew ''entry file not defined''), w)
      else
        let cleanEnvFilenames = cleanFilenames (mapOrder sys) envFiles in
        if definedEnvsFlag envFiles \<and> length cleanEnvFilenames = 0
        then (Inl ErrBadEnvsDefined, w)
        else
          (case GetProjectDir sys of
             Inl err \<Rightarrow> (Inl err, w)
           | Inr projectDir \<Rightarrow>
               (case walk sys entryFile cleanEnvFilenames [] w (IterateThroughPath projectDir) of
                  Inl err \<Rightarrow> (Inl err, w)
                | Inr (foundEnvPaths, w') \<Rightarrow>
                    let root = Getenv w' (grootEnv w') in
                    if root = [] then (Inl (ErsNew ''no root found''), w')
                    else if HasSuffix entryFile ''.env''
                    then (Inr (foundEnvPaths @ [Join [root, entryFile]]), w')
                    else (Inr foundEnvPaths, w'))))"

text \<open>
  The second half: which files are loaded. Without env file names the files found are
  loaded if there are any; with names, every clean name must be the base name of a file
  found before anything is loaded.
\<close>

definition loadEnvs ::
  "system \<Rightarrow> string list \<Rightarrow> string list \<Rightarrow> world \<Rightarrow> error option \<times> world" where
  "loadEnvs sys envFiles foundEnvPaths w =
     (if length envFiles = 0 \<or> \<not> definedEnvsFlag envFiles then
        (if length foundEnvPaths \<noteq> 0
         then (let (err, w') = Load sys foundEnvPaths w in (Wrap err, w'))
         else (Wrap (Some ErrNoEnvDefined), w))
      else if definedEnvsFlag envFiles
              \<and> (\<exists>requiredFile \<in> set (cleanFilenames (mapOrder sys) envFiles).
                    requiredFile \<notin> set (map Base foundEnvPaths))
      then (Wrap (Some ErrMissingEnvs), w)
      else if length foundEnvPaths > 0
      then (let (err, w') = Load sys foundEnvPaths w in (Wrap err, w'))
      else (None, w))"

text \<open>\<open>SetRoot\<close>: an error of the first half is wrapped and returned.\<close>

definition SetRoot ::
  "system \<Rightarrow> world \<Rightarrow> string \<Rightarrow> string list \<Rightarrow> error option \<times> world" where
  "SetRoot sys w entryFile envFiles =
     (case resolveRoot sys w entryFile envFiles of
        (Inl err, w') \<Rightarrow> (Wrap (Some err), w')
      | (Inr foundEnvPaths, w') \<Rightarrow> loadEnvs sys envFiles foundEnvPaths w')"

text \<open>
  \<open>SetRootFromPath\<close>: a relative path is joined to the project directory; the path must be
  an existing directory.
\<close>

definition SetRootFromPath :: "system \<Rightarrow> world \<Rightarrow> string \<Rightarrow> error option \<times> world" where
  "SetRootFromPath sys w path0 =
     (let path = TrimSpace path0 in
      if path = [] then (Some (ErsNew ''path cannot be empty''), w)
      else
        (case (if \<not> IsAbs path
               then (case GetProjectDir sys of
                       Inl err \<Rightarrow> Inl err
                     | Inr projectDir \<Rightarrow> Inr (Join [projectDir, path]))
               else Inr path) of
           Inl err \<Rightarrow> (Wrap (Some err), w)
         | Inr path' \<Rightarrow>
             (case Stat sys path' of
                Inl msg \<Rightarrow> (Wrap (Some (External msg)), w)
              | Inr fi \<Rightarrow>
                  if fi \<noteq> Directory then (Some (ErsNew ''path is not a directory''), w)
                  else (None, Setenv (grootEnv w) path' w))))"

definition ClearRoot :: "world \<Rightarrow> world" where
  "ClearRoot w = Unsetenv (grootEnv w) w"

section \<open>Queries against the root\<close>

text \<open>
  \<open>FromRoot\<close>: the condition \<open>root == "" || filepath.IsAbs(path[0])\<close> reads the first
  segment only when the root is not empty; indexing an empty slice panics.
\<close>

datatype panic = IndexOutOfRange nat nat

definition FromRoot :: "world \<Rightarrow> string list \<Rightarrow> panic + string" where
  "FromRoot w path =
     (let root = GetRoot w in
      if root = [] then Inr (Join path)
      else
        (case path of
           [] \<Rightarrow> Inl (IndexOutOfRange 0 0)
         | first # _ \<Rightarrow>
             if IsAbs first then Inr (Join path)
             else Inr (Join [root, Join path])))"

definition IsRoot :: "world \<Rightarrow> string \<Rightarrow> bool" where
  "IsRoot w path =
     (let root = GetRoot w in
      if root = [] then False
      else ensureCleanPath path = ensureCleanPath root)"

text \<open>
  \<open>filepath.Rel\<close>: both paths are cleaned; equal paths give \<open>.\<close>; a rooted and a relative
  path cannot be related. The loop moves over the leading elements the two have in common.
  \<open>relSkip\<close> returns the element of the base at which the loop stopped (empty when one path
  ran out), and what is left of the base and of the target from there. Then every element
  left of the base costs one \<open>..\<close>, followed by what is left of the target; a base left at
  \<open>..\<close> cannot be undone.
\<close>

lemma length_tl_dropWhile: "s \<noteq> [] \<Longrightarrow> length (dropWhile P s) - Suc 0 < length s"
  using length_dropWhile_le [of P s] by (cases s) simp_all

function relSkip :: "string \<Rightarrow> string \<Rightarrow> string \<times> string \<times> string" where
  "relSkip base targ =
     (if base \<noteq> [] \<and> targ \<noteq> [] then
        (if takeWhile (\<lambda>c. c \<noteq> PathSeparator) targ \<noteq> takeWhile (\<lambda>c. c \<noteq> PathSeparator) base
         then (takeWhile (\<lambda>c. c \<noteq> PathSeparator) base, base, targ)
         else relSkip (tl (dropWhile (\<lambda>c. c \<noteq> PathSeparator) base))
                (tl (dropWhile (\<lambda>c. c \<noteq> PathSeparator) targ)))
      else ([], base, targ))"
  by pat_completeness auto
termination
  by (relation "measure (\<lambda>(base, targ). length base)") (simp_all add: length_tl_dropWhile)

declare relSkip.simps [simp del]

definition Rel :: "string \<Rightarrow> string \<Rightarrow> error + string" where
  "Rel basepath targpath =
     (let base0 = Clean basepath; targ = Clean targpath in
      if targ = base0 then Inr ''.''
      else
        let base = (if base0 = ''.'' then [] else base0);
            baseSlashed = (length base > 0 \<and> hd base = PathSeparator);
            targSlashed = (length targ > 0 \<and> hd targ = PathSeparator);
            cannot = External (''Rel: can't make '' @ targpath @ '' relative to '' @ basepath)
        in
        if baseSlashed \<noteq> targSlashed then Inl cannot
        else
          (case relSkip base targ of
             (stopped, baseLeft, targLeft) \<Rightarrow>
               if stopped = ''..'' then Inl cannot
               else if baseLeft \<noteq> [] then
                 Inr (''..''
                      @ concat (replicate (count_list baseLeft PathSeparator)
                                  (PathSeparator # ''..''))
                      @ (if targLeft \<noteq> [] then PathSeparator # targLeft else []))
               else Inr targLeft))"

definition GetRelativeToRoot :: "world \<Rightarrow> string \<Rightarrow> error + string" where
  "GetRelativeToRoot w path =
     (let root = GetRoot w in
      if root = [] then Inl (ErsNew ''root not set'')
      else
        (case Rel (ensureCleanPath root) (ensureCleanPath path) of
           Inl err \<Rightarrow> Inl err
         | Inr rel \<Rightarrow> Inr rel))"

definition IsInRoot :: "world \<Rightarrow> string \<Rightarrow> bool" where
  "IsInRoot w path =
     (let root = GetRoot w in
      if root = [] then False
      else
        (case Rel (ensureCleanPath root) (ensureCleanPath path) of
           Inl err \<Rightarrow> False
         | Inr rel \<Rightarrow> \<not> HasPrefix rel ''..''))"

section \<open>Claims\<close>

subsection \<open>C3: normalising twice\<close>

text \<open>
  C3. The claim: for every string \<open>p\<close>, \<open>ensureCleanPath (ensureCleanPath p)\<close> equals
  \<open>ensureCleanPath p\<close>, also for runs of three or more separators. The code replaces each
  doubled separator once, from left to right: of three separators the first two become one
  and the third stays, so two are left, and a second call changes the result again.
\<close>

theorem C3_ensureCleanPath_not_idempotent:
  "ensureCleanPath ''///'' = ''//''
     \<and> ensureCleanPath (ensureCleanPath ''///'') = ''/''
     \<and> ensureCleanPath (ensureCleanPath ''///'') \<noteq> ensureCleanPath ''///''"
  by code_simp

subsection \<open>C10 and C9: joining from the root\<close>

text \<open>
  The world in which the program starts: the key is \<open>GROOT\<close>, no variable is set and
  nothing has been loaded. And a world in which the root is \<open>/srv/app\<close>.
\<close>

definition freshWorld :: world where
  "freshWorld = \<lparr>grootEnv = ''GROOT'', environ = Map.empty, loaded = []\<rparr>"

definition rootedWorld :: world where
  "rootedWorld =
     \<lparr>grootEnv = ''GROOT'', environ = [''GROOT'' \<mapsto> ''/srv/app''], loaded = []\<rparr>"

lemma validKey_GROOT [simp]: "validKey ''GROOT''"
  by (simp add: validKey_def)

lemma grootEnv_freshWorld [simp]: "grootEnv freshWorld = ''GROOT''"
  by (simp add: freshWorld_def)

lemma GetRoot_freshWorld [simp]: "GetRoot freshWorld = []"
  by (simp add: GetRoot_def Getenv_def freshWorld_def)

lemma GetRoot_rootedWorld [simp]: "GetRoot rootedWorld = ''/srv/app''"
  by (simp add: GetRoot_def Getenv_def rootedWorld_def)

lemma Join_Nil [simp]: "Join [] = []"
  by (simp add: Join_def)

text \<open>
  C10. The claim: \<open>FromRoot\<close> without segments panics in every state of the root. With the
  root unset the condition \<open>root == "" || filepath.IsAbs(path[0])\<close> is decided by its first
  half, the first segment is never read, and the call returns the join of no segments, the
  empty string.
\<close>

theorem C10_counterexample: "FromRoot freshWorld [] = Inr []"
  by (simp add: FromRoot_def)

text \<open>
  C10, amended: \<open>FromRoot\<close> without segments panics (index out of range) when the root is
  set to a non-empty value, and returns the empty string when it is not.
\<close>

theorem C10_FromRoot_no_segments:
  "FromRoot w [] = (if GetRoot w = [] then Inr [] else Inl (IndexOutOfRange 0 0))"
  by (simp add: FromRoot_def)

text \<open>
  C9. For a non-empty list of segments, \<open>FromRoot\<close> returns the plain join of the segments
  when the root is unset or the first segment is absolute, and the root joined with the
  joined segments otherwise.
\<close>

theorem C9_FromRoot_segments:
  assumes "path \<noteq> []"
  shows "FromRoot w path =
           (if environ w (grootEnv w) = None \<or> GetRoot w = [] \<or> IsAbs (hd path)
            then Inr (Join path)
            else Inr (Join [GetRoot w, Join path]))"
proof -
  from assms obtain first rest where path: "path = first # rest"
    by (cases path) auto
  have "environ w (grootEnv w) = None \<Longrightarrow> GetRoot w = []"
    by (simp add: GetRoot_def Getenv_def)
  then show ?thesis
    by (auto simp: FromRoot_def Let_def path)
qed

theorem C9_witness:
  "FromRoot rootedWorld [''config'', ''app.yaml''] = Inr ''/srv/app/config/app.yaml''
     \<and> FromRoot rootedWorld [''/etc'', ''hosts''] = Inr ''/etc/hosts''
     \<and> FromRoot freshWorld [''config'', ''app.yaml''] = Inr ''config/app.yaml''"
proof -
  have j1: "Join [''/srv/app'', Join [''config'', ''app.yaml'']] = ''/srv/app/config/app.yaml''"
    by code_simp
  have j2: "Join [''/etc'', ''hosts''] = ''/etc/hosts''"
    by code_simp
  have j3: "Join [''config'', ''app.yaml''] = ''config/app.yaml''"
    by code_simp
  have e: "environ rootedWorld (grootEnv rootedWorld) \<noteq> None"
    by (simp add: rootedWorld_def)
  have a1: "\<not> IsAbs ''config''" and a2: "IsAbs ''/etc''"
    by (simp_all add: IsAbs_def)
  show ?thesis
    using C9_FromRoot_segments [of "[''config'', ''app.yaml'']" rootedWorld]
      C9_FromRoot_segments [of "[''/etc'', ''hosts'']" rootedWorld]
      C9_FromRoot_segments [of "[''config'', ''app.yaml'']" freshWorld]
    using j1 j2 j3 e a1 a2 by simp
qed

subsection \<open>C2: containment in the root\<close>

text \<open>The root itself is inside the root.\<close>

lemma IsInRoot_root:
  assumes "GetRoot w \<noteq> []" and "ensureCleanPath path = ensureCleanPath (GetRoot w)"
  shows "IsInRoot w path"
  using assms by (simp add: IsInRoot_def Rel_def Let_def)

text \<open>A world in which the root is \<open>/a\<close>.\<close>

definition rootA :: world where
  "rootA = \<lparr>grootEnv = ''GROOT'', environ = [''GROOT'' \<mapsto> ''/a''], loaded = []\<rparr>"

text \<open>
  C2. The claim: with the root set, \<open>IsInRoot\<close> is true for the root and every descendant,
  false for the parent of the root and for a sibling tree. The code tests whether the
  relative path starts with the two bytes \<open>..\<close>, not whether its first element is \<open>..\<close>:
  for the root \<open>/a\<close>, the entry \<open>/a/..b\<close> of the root has the relative path \<open>..b\<close> and is
  reported as outside.
\<close>

theorem C2_IsInRoot_dotdot_name:
  "Dir ''/a/..b'' = GetRoot rootA
     \<and> GetRelativeToRoot rootA ''/a/..b'' = Inr ''..b''
     \<and> IsInRoot rootA ''/a/..b'' = False
     \<and> IsInRoot rootA ''/a/b'' = True"
proof -
  have r: "GetRoot rootA = ''/a''"
    by (simp add: GetRoot_def Getenv_def rootA_def)
  have d: "Dir ''/a/..b'' = ''/a''"
    by code_simp
  have c1: "ensureCleanPath ''/a'' = ''/a''" and c2: "ensureCleanPath ''/a/..b'' = ''/a/..b''"
    and c3: "ensureCleanPath ''/a/b'' = ''/a/b''"
    by code_simp+
  have r1: "Rel ''/a'' ''/a/..b'' = Inr ''..b''" and r2: "Rel ''/a'' ''/a/b'' = Inr ''b''"
    by code_simp+
  show ?thesis
    by (simp add: IsInRoot_def GetRelativeToRoot_def r d c1 c2 c3 r1 r2)
qed

section \<open>What the loader and the walk leave alone\<close>

lemma loaded_Setenv [simp]: "loaded (Setenv key val w) = loaded w"
  by (simp add: Setenv_def)

lemma environ_Setenv:
  "environ (Setenv key val w) k
     = (if validKey key \<and> CHR 0x00 \<notin> set val \<and> k = key then Some val else environ w k)"
  by (simp add: Setenv_def)

lemma grootEnv_Setenv [simp]: "grootEnv (Setenv key val w) = grootEnv w"
  by (simp add: Setenv_def)

lemma fold_set_missing_loaded:
  "loaded (fold (\<lambda>(key, val) w'. if environ w0 key = None then Setenv key val w' else w')
             envMap w) = loaded w"
  by (induction envMap arbitrary: w) (auto split: prod.splits)

lemma fold_set_missing_keeps:
  "environ w0 k = Some v \<Longrightarrow> environ w k = Some v \<Longrightarrow>
     environ (fold (\<lambda>(key, val) w'. if environ w0 key = None then Setenv key val w' else w')
                envMap w) k = Some v"
proof (induction envMap arbitrary: w)
  case Nil
  then show ?case by simp
next
  case (Cons kv envMap)
  obtain key val where kv: "kv = (key, val)"
    by (cases kv)
  have "environ (if environ w0 key = None then Setenv key val w else w) k = Some v"
    using Cons.prems by (auto simp: environ_Setenv)
  with Cons.IH [OF Cons.prems(1)] show ?case
    by (simp add: kv)
qed

lemma loadFile_loaded: "loaded (snd (loadFile sys filename w)) = loaded w"
  by (simp add: loadFile_def fold_set_missing_loaded split: sum.splits)

lemma loadFile_keeps:
  "environ w k = Some v \<Longrightarrow> environ (snd (loadFile sys filename w)) k = Some v"
  by (simp add: loadFile_def fold_set_missing_keeps split: sum.splits)

lemma loadFiles_loaded: "loaded (snd (loadFiles sys filenames w)) = loaded w"
proof (induction filenames arbitrary: w)
  case Nil
  then show ?case by simp
next
  case (Cons filename filenames)
  show ?case
    using loadFile_loaded [of sys filename w] Cons.IH
    by (cases "loadFile sys filename w") (auto split: option.splits)
qed

lemma loadFiles_keeps:
  "environ w k = Some v \<Longrightarrow> environ (snd (loadFiles sys filenames w)) k = Some v"
proof (induction filenames arbitrary: w)
  case Nil
  then show ?case by simp
next
  case (Cons filename filenames)
  show ?case
    using loadFile_keeps [OF Cons.prems, of sys filename] Cons.IH
    by (cases "loadFile sys filename w") (auto split: option.splits)
qed

lemma Load_unfold:
  "Load sys filenames w =
     (fst (loadFiles sys (if filenames = [] then [''.env''] else filenames) w),
      (snd (loadFiles sys (if filenames = [] then [''.env''] else filenames) w))
        \<lparr>loaded := loaded (snd (loadFiles sys (if filenames = [] then [''.env''] else filenames) w))
                    @ [filenames]\<rparr>)"
  by (simp only: Load_def Let_def case_prod_beta)

lemma Load_loaded: "loaded (snd (Load sys filenames w)) = loaded w @ [filenames]"
  by (simp only: Load_unfold snd_conv loadFiles_loaded) simp

lemma Load_keeps:
  assumes "environ w k = Some v"
  shows "environ (snd (Load sys filenames w)) k = Some v"
  using loadFiles_keeps [OF assms, of sys "if filenames = [] then [''.env''] else filenames"]
  by (simp only: Load_unfold snd_conv) simp

lemma grootEnv_fold_set_missing:
  "grootEnv (fold (\<lambda>(key, val) w'. if environ w0 key = None then Setenv key val w' else w')
               envMap w) = grootEnv w"
  by (induction envMap arbitrary: w) (auto split: prod.splits)

lemma grootEnv_loadFile: "grootEnv (snd (loadFile sys filename w)) = grootEnv w"
  by (simp add: loadFile_def grootEnv_fold_set_missing split: sum.splits)

lemma grootEnv_loadFiles: "grootEnv (snd (loadFiles sys filenames w)) = grootEnv w"
proof (induction filenames arbitrary: w)
  case Nil
  then show ?case by simp
next
  case (Cons filename filenames)
  show ?case
    using grootEnv_loadFile [of sys filename w] Cons.IH
    by (cases "loadFile sys filename w") (auto split: option.splits)
qed

lemma grootEnv_Load: "grootEnv (snd (Load sys filenames w)) = grootEnv w"
  by (simp only: Load_unfold snd_conv) (simp add: grootEnv_loadFiles)

text \<open>The loader leaves a root that is set as it is.\<close>

lemma GetRoot_Load:
  assumes "GetRoot w \<noteq> []"
  shows "GetRoot (snd (Load sys filenames w)) = GetRoot w"
proof -
  from assms have k: "validKey (grootEnv w)"
    by (auto simp: GetRoot_def Getenv_def split: if_splits)
  with assms obtain root where e: "environ w (grootEnv w) = Some root"
    by (auto simp: GetRoot_def Getenv_def split: option.splits)
  from Load_keeps [OF e, of sys filenames] k e show ?thesis
    by (simp add: GetRoot_def Getenv_def grootEnv_Load)
qed

lemma GetRoot_Setenv:
  assumes "validKey (grootEnv w)" and "CHR 0x00 \<notin> set val"
  shows "GetRoot (Setenv (grootEnv w) val w) = val"
  using assms by (simp add: GetRoot_def Getenv_def environ_Setenv)

lemma Setenv_invalid_key: "\<not> validKey key \<Longrightarrow> Setenv key val w = w"
  by (simp add: Setenv_def)

lemma GetRoot_invalid_key: "\<not> validKey (grootEnv w) \<Longrightarrow> GetRoot w = []"
  by (simp add: GetRoot_def Getenv_def)

lemma Load_error_External: "fst (Load sys filenames w) = Some err \<Longrightarrow> \<exists>msg. err = External msg"
proof -
  have lf: "\<And>f w. fst (loadFile sys f w) = Some err \<Longrightarrow> \<exists>msg. err = External msg"
    by (auto simp: loadFile_def split: sum.splits)
  have lfs: "\<And>w. fst (loadFiles sys fs w) = Some err \<Longrightarrow> \<exists>msg. err = External msg" for fs
  proof (induction fs)
    case Nil
    then show ?case by simp
  next
    case (Cons f fs)
    show ?case
      using Cons.prems lf [of f w] Cons.IH
      by (cases "loadFile sys f w") (auto split: option.splits)
  qed
  assume "fst (Load sys filenames w) = Some err"
  then have "fst (loadFiles sys (if filenames = [] then [''.env''] else filenames) w) = Some err"
    by (simp only: Load_unfold fst_conv)
  then show ?thesis
    by (rule lfs)
qed

section \<open>A project tree\<close>

text \<open>
  The directories \<open>/home/u/proj/src\<close> and its ancestors; the files \<open>app.id\<close> and \<open>dev.env\<close> in
  \<open>/home/u/proj\<close>, and another \<open>dev.env\<close> in \<open>/home/u\<close>. The program runs as the binary
  \<open>/home/u/proj/src/app\<close>, so that the project directory is \<open>/home/u/proj/src\<close>. What the env
  files define, and the order of map keys, are left open.
\<close>

definition projTree :: "string \<Rightarrow> string + file_kind" where
  "projTree name =
     (if name \<in> set [''/'', ''/home'', ''/home/u'', ''/home/u/proj'', ''/home/u/proj/src'']
      then Inr Directory
      else if name \<in> set [''/home/u/proj/app.id'', ''/home/u/proj/dev.env'', ''/home/u/dev.env'',
                            ''/home/u/proj/src/app'']
      then Inr NonDirectory
      else Inl ''no such file or directory'')"

definition projSystem ::
  "(string \<Rightarrow> string + (string \<times> string) list) \<Rightarrow> (string \<Rightarrow> nat) \<Rightarrow> system" where
  "projSystem contents order =
     \<lparr>stat = projTree, lstat = projTree, globMeta = (\<lambda>pattern. Inr []), dotenv = contents,
      Executable = Inr ''/home/u/proj/src/app'', callerFile = ''/home/u/proj/src/main.go'',
      TempDir = ''/tmp'', mapOrder = order\<rparr>"

lemma projSystem_sel [simp]:
  "stat (projSystem c ord) = projTree"
  "lstat (projSystem c ord) = projTree"
  "dotenv (projSystem c ord) = c"
  "Executable (projSystem c ord) = Inr ''/home/u/proj/src/app''"
  "callerFile (projSystem c ord) = ''/home/u/proj/src/main.go''"
  "TempDir (projSystem c ord) = ''/tmp''"
  "mapOrder (projSystem c ord) = ord"
  by (simp_all add: projSystem_def)

lemma GetProjectDir_projSystem: "GetProjectDir (projSystem c ord) = Inr ''/home/u/proj/src''"
proof -
  have d1: "Dir ''/home/u/proj/src/app'' = ''/home/u/proj/src''"
    by code_simp
  have m: "HasSuffix ''/home/u/proj/src/main.go'' ''.go''"
    by code_simp
  have c: "\<not> Contains ''/home/u/proj/src'' ''/tmp''"
    by code_simp
  have s: "Stat (projSystem c ord) ''/home/u/proj/src'' = Inr Directory"
    by (simp add: Stat_def projTree_def)
  show ?thesis
    using m by (simp add: GetProjectDir_def GetMainFile_def d1 c s Let_def)
qed

lemma chain_projSystem:
  "IterateThroughPath ''/home/u/proj/src''
     = [''/home/u/proj/src'', ''/home/u/proj'', ''/home/u'', ''/home'', ''/'']"
  by code_simp

lemma TrimSpace_Nil [simp]: "TrimSpace [] = []"
  by code_simp

lemma not_definedEnvsFlag_Nil [simp]: "\<not> definedEnvsFlag []"
  by (simp add: definedEnvsFlag_def)

lemma cleanFilenames_Nil [simp]: "cleanFilenames ord [] = []"
  by (simp add: cleanFilenames_def)

lemma cleanFilenames_dev: "cleanFilenames ord [''dev.env''] = [''dev.env'']"
proof -
  have "TrimSpace ''dev.env'' = ''dev.env''"
    by code_simp
  moreover have "\<not> Contains ''dev.env'' ''/''"
    by code_simp
  ultimately show ?thesis
    by (simp add: cleanFilenames_def replaceStringByte_def)
qed

lemma walk_projSystem_dev:
  "walk (projSystem c ord) ''app.id'' [''dev.env''] [] w (IterateThroughPath ''/home/u/proj/src'')
     = Inr ([''/home/u/proj/dev.env''], Setenv (grootEnv w) ''/home/u/proj'' w)"
proof -
  let ?sys = "projSystem c ord"
  have j: "Join [''/home/u/proj/src'', ''dev.env''] = ''/home/u/proj/src/dev.env''"
    "Join [''/home/u/proj/src'', ''app.id''] = ''/home/u/proj/src/app.id''"
    "Join [''/home/u/proj'', ''dev.env''] = ''/home/u/proj/dev.env''"
    "Join [''/home/u/proj'', ''app.id''] = ''/home/u/proj/app.id''"
    by code_simp+
  have g1: "Glob ?sys ''/home/u/proj/src/dev.env'' = Inr []"
    by (simp add: Glob_def hasMeta_def Lstat_def projTree_def)
  have g2: "Glob ?sys ''/home/u/proj/dev.env'' = Inr [''/home/u/proj/dev.env'']"
    by (simp add: Glob_def hasMeta_def Lstat_def projTree_def)
  have s1: "Stat ?sys ''/home/u/proj/src/app.id'' \<noteq> Inr NonDirectory"
    by (simp add: Stat_def projTree_def)
  have s2: "Stat ?sys ''/home/u/proj/app.id'' = Inr NonDirectory"
    by (simp add: Stat_def projTree_def)
  show ?thesis
    by (simp add: chain_projSystem j g1 g2 s1 s2)
qed

lemma resolveRoot_projSystem_dev:
  assumes "validKey (grootEnv w)"
  shows "resolveRoot (projSystem c ord) w ''app.id'' [''dev.env'']
           = (Inr [''/home/u/proj/dev.env''], Setenv (grootEnv w) ''/home/u/proj'' w)"
proof -
  have t: "TrimSpace ''app.id'' = ''app.id''"
    by code_simp
  have f: "definedEnvsFlag [''dev.env'']"
    unfolding definedEnvsFlag_def by code_simp
  have r: "GetRoot (Setenv (grootEnv w) ''/home/u/proj'' w) = ''/home/u/proj''"
    using assms by (simp add: GetRoot_Setenv)
  have e: "\<not> HasSuffix ''app.id'' ''.env''"
    by code_simp
  show ?thesis
    using e r
    by (simp add: resolveRoot_def t f cleanFilenames_dev GetProjectDir_projSystem
        walk_projSystem_dev GetRoot_def)
qed

lemma resolveRoot_projSystem_dev_rejected:
  assumes "\<not> validKey (grootEnv w)"
  shows "resolveRoot (projSystem c ord) w ''app.id'' [''dev.env'']
           = (Inl (ErsNew ''no root found''), w)"
proof -
  have t: "TrimSpace ''app.id'' = ''app.id''"
    by code_simp
  have f: "definedEnvsFlag [''dev.env'']"
    unfolding definedEnvsFlag_def by code_simp
  have r: "GetRoot w = []"
    using assms by (rule GetRoot_invalid_key)
  show ?thesis
    using r assms
    by (simp add: resolveRoot_def t f cleanFilenames_dev GetProjectDir_projSystem
        walk_projSystem_dev GetRoot_def Setenv_invalid_key)
qed

lemma SetRoot_projSystem_dev:
  assumes "validKey (grootEnv w)"
  shows "SetRoot (projSystem c ord) w ''app.id'' [''dev.env'']
           = (let (err, w') = Load (projSystem c ord) [''/home/u/proj/dev.env'']
                                (Setenv (grootEnv w) ''/home/u/proj'' w)
              in (Wrap err, w'))"
proof -
  have f: "definedEnvsFlag [''dev.env'']"
    unfolding definedEnvsFlag_def by code_simp
  have b: "Base ''/home/u/proj/dev.env'' = ''dev.env''"
    by code_simp
  show ?thesis
    by (simp add: SetRoot_def resolveRoot_projSystem_dev [OF assms] loadEnvs_def f
        cleanFilenames_dev b)
qed

text \<open>The world after \<open>SetGrootKey("A=B")\<close> in the starting world.\<close>

definition keyedWorld :: world where
  "keyedWorld = \<lparr>grootEnv = ''A=B'', environ = Map.empty, loaded = []\<rparr>"

lemma SetGrootKey_AB: "SetGrootKey freshWorld ''A=B'' = (None, keyedWorld)"
proof -
  have "TrimSpace ''A=B'' = ''A=B''"
    by code_simp
  then show ?thesis
    by (simp add: SetGrootKey_def freshWorld_def keyedWorld_def)
qed

lemma keyedWorld_key: "\<not> validKey (grootEnv keyedWorld)"
  by (simp add: keyedWorld_def validKey_def)

subsection \<open>C4: the walk stops at the marker\<close>

text \<open>
  C4. The claim: from the starting directory \<open>/home/u/proj/src\<close>, with the marker \<open>app.id\<close>
  only in \<open>/home/u/proj\<close> and the requested file \<open>dev.env\<close> in \<open>/home/u/proj\<close> and in
  \<open>/home/u\<close>, \<open>SetRoot\<close> stores \<open>/home/u/proj\<close> as the root, with \<open>/home/u/proj/dev.env\<close> and
  without \<open>/home/u/dev.env\<close> among the candidates. The root is stored with \<open>os.Setenv\<close> under
  the key \<open>grootEnv\<close>, and the error of \<open>os.Setenv\<close> is ignored: after \<open>SetGrootKey("A=B")\<close>,
  which succeeds, nothing is stored in this scenario, the root reads back empty and
  \<open>SetRoot\<close> returns "no root found".
\<close>

theorem C4_counterexample:
  "SetGrootKey freshWorld ''A=B'' = (None, keyedWorld)
     \<and> SetRoot (projSystem (\<lambda>name. Inr []) (\<lambda>name. 0)) keyedWorld ''app.id'' [''dev.env'']
          = (Some (ErsNew ''no root found''), keyedWorld)
     \<and> GetRoot keyedWorld = []"
  by (simp add: SetGrootKey_AB SetRoot_def Wrap_def
      resolveRoot_projSystem_dev_rejected [OF keyedWorld_key] GetRoot_invalid_key [OF keyedWorld_key])

text \<open>
  C4, amended: in the scenario of the claim, and with a key \<open>grootEnv\<close> that names an
  environment variable (as \<open>GROOT\<close> does), \<open>SetRoot\<close> stores \<open>/home/u/proj\<close> as the root, and
  the list of files it collects and hands to the loader is \<open>/home/u/proj/dev.env\<close> alone:
  \<open>/home/u/dev.env\<close>, which exists in a directory of the chain, is not in it. This holds
  whatever the env files contain, whatever the environment was before, and in whatever order
  map keys are visited.
\<close>

theorem C4_walk_stops_at_marker:
  assumes "validKey (grootEnv w)"
  shows "fst (resolveRoot (projSystem c ord) w ''app.id'' [''dev.env''])
           = Inr [''/home/u/proj/dev.env'']
     \<and> GetRoot (snd (SetRoot (projSystem c ord) w ''app.id'' [''dev.env''])) = ''/home/u/proj''
     \<and> loaded (snd (SetRoot (projSystem c ord) w ''app.id'' [''dev.env'']))
           = loaded w @ [[''/home/u/proj/dev.env'']]
     \<and> ''/home/u'' \<in> set (IterateThroughPath ''/home/u/proj/src'')
     \<and> Glob (projSystem c ord) (Join [''/home/u'', ''dev.env'']) = Inr [''/home/u/dev.env'']"
proof -
  let ?sys = "projSystem c ord"
  let ?w1 = "Setenv (grootEnv w) ''/home/u/proj'' w"
  have r1: "GetRoot ?w1 = ''/home/u/proj''"
    using assms by (simp add: GetRoot_Setenv)
  then have "GetRoot ?w1 \<noteq> []"
    by simp
  from GetRoot_Load [OF this, of ?sys "[''/home/u/proj/dev.env'']"] r1
  have root: "GetRoot (snd (Load ?sys [''/home/u/proj/dev.env''] ?w1)) = ''/home/u/proj''"
    by simp
  have ld: "loaded (snd (Load ?sys [''/home/u/proj/dev.env''] ?w1))
              = loaded w @ [[''/home/u/proj/dev.env'']]"
    by (simp add: Load_loaded)
  have sr: "snd (SetRoot ?sys w ''app.id'' [''dev.env''])
              = snd (Load ?sys [''/home/u/proj/dev.env''] ?w1)"
    by (simp add: SetRoot_projSystem_dev [OF assms] split: prod.splits)
  have j: "Join [''/home/u'', ''dev.env''] = ''/home/u/dev.env''"
    by code_simp
  have g: "Glob ?sys ''/home/u/dev.env'' = Inr [''/home/u/dev.env'']"
    by (simp add: Glob_def hasMeta_def Lstat_def projTree_def)
  show ?thesis
    by (simp add: resolveRoot_projSystem_dev [OF assms] sr root ld chain_projSystem j g)
qed

theorem C4_witness:
  "GetRoot (snd (SetRoot (projSystem (\<lambda>name. Inr []) (\<lambda>name. 0)) freshWorld ''app.id''
                   [''dev.env''])) = ''/home/u/proj''
     \<and> loaded (snd (SetRoot (projSystem (\<lambda>name. Inr []) (\<lambda>name. 0)) freshWorld ''app.id''
                       [''dev.env''])) = [[''/home/u/proj/dev.env'']]"
proof -
  have k: "validKey (grootEnv freshWorld)"
    by simp
  have l: "loaded freshWorld = []"
    by (simp add: freshWorld_def)
  from C4_walk_stops_at_marker [OF k, of "\<lambda>name. Inr []" "\<lambda>name. 0"] l show ?thesis
    by simp
qed

section \<open>A walk that finds no marker\<close>

text \<open>
  When no directory of the chain has the entry file as a non-directory, the loop of
  \<open>SetRoot\<close> stores nothing. The root is then the same after the call as before, whatever
  the call returns; and if the root was unset, and the arguments pass their checks, the
  project directory is found and no pattern is malformed, the call returns "no root found".
\<close>

lemma walk_no_marker:
  assumes "\<forall>path\<in>set paths. Stat sys (Join [path, entryFile]) \<noteq> Inr NonDirectory"
    and "walk sys entryFile names found w paths = Inr (found', w')"
  shows "w' = w"
  using assms by (induction paths arbitrary: found) (auto split: sum.splits if_splits)

lemma loadEnvs_keeps_root:
  assumes "GetRoot w \<noteq> []"
  shows "GetRoot (snd (loadEnvs sys envFiles found w)) = GetRoot w"
proof -
  have "GetRoot (snd (Load sys found w)) = GetRoot w"
    using assms by (rule GetRoot_Load)
  then show ?thesis
    by (simp add: loadEnvs_def case_prod_beta)
qed

lemma SetRoot_no_marker_keeps_root:
  assumes "\<And>projectDir. GetProjectDir sys = Inr projectDir \<Longrightarrow>
             \<forall>path\<in>set (IterateThroughPath projectDir).
               Stat sys (Join [path, TrimSpace entryFile]) \<noteq> Inr NonDirectory"
  shows "GetRoot (snd (SetRoot sys w entryFile envFiles)) = GetRoot w"
proof (cases "GetProjectDir sys")
  case (Inl e)
  then show ?thesis
    by (simp add: SetRoot_def resolveRoot_def Let_def)
next
  case (Inr projectDir)
  note nm = assms [OF Inr]
  show ?thesis
  proof (cases "walk sys (TrimSpace entryFile) (cleanFilenames (mapOrder sys) envFiles) [] w
                  (IterateThroughPath projectDir)")
    case (Inl e)
    with Inr show ?thesis
      by (simp add: SetRoot_def resolveRoot_def Let_def)
  next
    case walked: (Inr r)
    obtain found w' where r: "r = (found, w')"
      by (cases r)
    with walked nm have w': "w' = w"
      by (auto dest: walk_no_marker)
    show ?thesis
    proof (cases "GetRoot w = []")
      case True
      with Inr walked r w' show ?thesis
        by (simp add: SetRoot_def resolveRoot_def Let_def GetRoot_def)
    next
      case False
      with Inr walked r w' loadEnvs_keeps_root [OF False] show ?thesis
        by (simp add: SetRoot_def resolveRoot_def Let_def GetRoot_def)
    qed
  qed
qed

lemma SetRoot_no_marker_unset:
  assumes "TrimSpace entryFile \<noteq> []"
    and "\<not> (definedEnvsFlag envFiles \<and> cleanFilenames (mapOrder sys) envFiles = [])"
    and "GetProjectDir sys = Inr projectDir"
    and "walk sys (TrimSpace entryFile) (cleanFilenames (mapOrder sys) envFiles) [] w
           (IterateThroughPath projectDir) = Inr (found, w')"
    and "\<forall>path\<in>set (IterateThroughPath projectDir).
           Stat sys (Join [path, TrimSpace entryFile]) \<noteq> Inr NonDirectory"
    and "GetRoot w = []"
  shows "SetRoot sys w entryFile envFiles = (Some (ErsNew ''no root found''), w)"
proof -
  from assms(4,5) have "w' = w"
    by (auto dest: walk_no_marker)
  with assms show ?thesis
    by (simp add: SetRoot_def resolveRoot_def Let_def GetRoot_def Wrap_def)
qed

subsection \<open>C1: no marker in the chain\<close>

text \<open>A world in which the root was set before, to \<open>/old\<close>.\<close>

definition staleWorld :: world where
  "staleWorld = \<lparr>grootEnv = ''GROOT'', environ = [''GROOT'' \<mapsto> ''/old''], loaded = []\<rparr>"

lemma projTree_missing:
  "projTree ''/home/u/proj/src/missing.id'' = Inl ''no such file or directory''"
  "projTree ''/home/u/proj/missing.id'' = Inl ''no such file or directory''"
  "projTree ''/home/u/missing.id'' = Inl ''no such file or directory''"
  "projTree ''/home/missing.id'' = Inl ''no such file or directory''"
  "projTree ''/missing.id'' = Inl ''no such file or directory''"
  "projTree ''/home/u/proj/src/missing.env'' = Inl ''no such file or directory''"
  "projTree ''/home/u/proj/missing.env'' = Inl ''no such file or directory''"
  "projTree ''/home/u/missing.env'' = Inl ''no such file or directory''"
  "projTree ''/home/missing.env'' = Inl ''no such file or directory''"
  "projTree ''/missing.env'' = Inl ''no such file or directory''"
  by (simp_all add: projTree_def)

lemma Join_missing:
  "Join [''/home/u/proj/src'', ''missing.id''] = ''/home/u/proj/src/missing.id''"
  "Join [''/home/u/proj'', ''missing.id''] = ''/home/u/proj/missing.id''"
  "Join [''/home/u'', ''missing.id''] = ''/home/u/missing.id''"
  "Join [''/home'', ''missing.id''] = ''/home/missing.id''"
  "Join [''/'', ''missing.id''] = ''/missing.id''"
  "Join [''/home/u/proj/src'', ''missing.env''] = ''/home/u/proj/src/missing.env''"
  "Join [''/home/u/proj'', ''missing.env''] = ''/home/u/proj/missing.env''"
  "Join [''/home/u'', ''missing.env''] = ''/home/u/missing.env''"
  "Join [''/home'', ''missing.env''] = ''/home/missing.env''"
  "Join [''/'', ''missing.env''] = ''/missing.env''"
  by code_simp+

lemma walk_projSystem_missing_id:
  "walk (projSystem c ord) ''missing.id'' [] [] w (IterateThroughPath ''/home/u/proj/src'')
     = Inr ([], w)"
  by (simp add: chain_projSystem Join_missing Stat_def projTree_missing)

lemma walk_projSystem_missing_env:
  "walk (projSystem c ord) ''missing.env'' [] [] w (IterateThroughPath ''/home/u/proj/src'')
     = Inr ([], w)"
  by (simp add: chain_projSystem Join_missing Stat_def projTree_missing)

text \<open>
  C1. The claim: when no directory of the ancestor chain has the entry file, \<open>SetRoot\<close>
  returns the error "no root found" and the root stays what it was, unset or set. The code
  decides by reading the root back from the environment after the loop. In the project tree
  no directory has a file \<open>missing.id\<close>: with the root unset, the call fails with "no root
  found"; with the root set before, the loop changes nothing, the old root is read back,
  and the call goes on to the env files, where it fails with \<open>ErrNoEnvDefined\<close>; for the
  entry file \<open>missing.env\<close> it hands \<open>/old/missing.env\<close> to the loader. The root itself is
  unchanged in each case.
\<close>

theorem C1_stale_root_hides_no_root_found:
  "SetRoot (projSystem c ord) freshWorld ''missing.id'' []
      = (Some (ErsNew ''no root found''), freshWorld)
   \<and> SetRoot (projSystem c ord) staleWorld ''missing.id'' []
      = (Some ErrNoEnvDefined, staleWorld)
   \<and> fst (SetRoot (projSystem c ord) staleWorld ''missing.id'' []) \<noteq> Some (ErsNew ''no root found'')
   \<and> loaded (snd (SetRoot (projSystem c ord) staleWorld ''missing.env'' []))
      = [[''/old/missing.env'']]
   \<and> GetRoot (snd (SetRoot (projSystem c ord) staleWorld ''missing.env'' [])) = ''/old''"
proof -
  let ?sys = "projSystem c ord"
  have t: "TrimSpace ''missing.id'' = ''missing.id''" "TrimSpace ''missing.env'' = ''missing.env''"
    by code_simp+
  have s: "\<not> HasSuffix ''missing.id'' ''.env''" "HasSuffix ''missing.env'' ''.env''"
    by code_simp+
  have j: "Join [''/old'', ''missing.env''] = ''/old/missing.env''"
    by code_simp
  have k: "grootEnv staleWorld = ''GROOT''"
    by (simp add: staleWorld_def)
  have gf: "Getenv freshWorld ''GROOT'' = []"
    and gs: "Getenv staleWorld ''GROOT'' = ''/old''"
    by (simp_all add: Getenv_def freshWorld_def staleWorld_def)
  have r1: "resolveRoot ?sys freshWorld ''missing.id'' [] = (Inl (ErsNew ''no root found''), freshWorld)"
    by (simp add: resolveRoot_def t GetProjectDir_projSystem walk_projSystem_missing_id gf)
  have r2: "resolveRoot ?sys staleWorld ''missing.id'' [] = (Inr [], staleWorld)"
    using s by (simp add: resolveRoot_def t GetProjectDir_projSystem walk_projSystem_missing_id gs k)
  have r3: "resolveRoot ?sys staleWorld ''missing.env'' [] = (Inr [''/old/missing.env''], staleWorld)"
    using s by (simp add: resolveRoot_def t GetProjectDir_projSystem walk_projSystem_missing_env gs j k)
  have e: "GetRoot staleWorld \<noteq> []" "GetRoot staleWorld = ''/old''"
    using gs by (simp_all add: GetRoot_def k)
  have c1: "SetRoot ?sys freshWorld ''missing.id'' [] = (Some (ErsNew ''no root found''), freshWorld)"
    by (simp add: SetRoot_def r1 Wrap_def)
  have c2: "SetRoot ?sys staleWorld ''missing.id'' [] = (Some ErrNoEnvDefined, staleWorld)"
    by (simp add: SetRoot_def r2 loadEnvs_def Wrap_def)
  have c3: "snd (SetRoot ?sys staleWorld ''missing.env'' [])
              = snd (Load ?sys [''/old/missing.env''] staleWorld)"
    by (simp add: SetRoot_def r3 loadEnvs_def split: prod.splits)
  have l: "loaded (snd (Load ?sys [''/old/missing.env''] staleWorld)) = [[''/old/missing.env'']]"
    by (simp add: Load_loaded) (simp add: staleWorld_def)
  have g: "GetRoot (snd (Load ?sys [''/old/missing.env''] staleWorld)) = ''/old''"
    using GetRoot_Load [OF e(1), of ?sys "[''/old/missing.env'']"] e(2) by simp
  show ?thesis
    by (simp add: c1 c2 c3 l g)
qed

section \<open>Trimming\<close>

lemma spaceRunes_no_sep: "w \<in> set spaceRunes \<Longrightarrow> PathSeparator \<notin> set w"
  by (auto simp: spaceRunes_def)

lemma spaceRunes_not_Nil: "w \<in> set spaceRunes \<Longrightarrow> w \<noteq> []"
  by (auto simp: spaceRunes_def)

lemma leadingSpace_rune:
  assumes "leadingSpace s \<noteq> 0"
  shows "take (leadingSpace s) s \<in> set spaceRunes"
proof -
  from assms obtain w where f: "find (\<lambda>w. prefix w s) spaceRunes = Some w"
    and l: "leadingSpace s = length w"
    by (auto simp: leadingSpace_def split: option.splits)
  from f have "w \<in> set spaceRunes" and "prefix w s"
    by (auto simp: find_Some_iff)
  then show ?thesis
    using l by (auto simp: prefix_def)
qed

lemma trailingSpace_rune:
  assumes "trailingSpace s \<noteq> 0"
  shows "drop (length s - trailingSpace s) s \<in> set spaceRunes"
proof -
  from assms obtain w where f: "find (\<lambda>w. suffix w s) spaceRunes = Some w"
    and l: "trailingSpace s = length w"
    by (auto simp: trailingSpace_def split: option.splits)
  from f have "w \<in> set spaceRunes" and "suffix w s"
    by (auto simp: find_Some_iff)
  then show ?thesis
    using l by (auto simp: suffix_def)
qed

lemma leadingSpace_zero_iff: "leadingSpace s = 0 \<longleftrightarrow> (\<forall>w\<in>set spaceRunes. \<not> prefix w s)"
proof
  assume z: "leadingSpace s = 0"
  have "find (\<lambda>w. prefix w s) spaceRunes = None"
  proof (cases "find (\<lambda>w. prefix w s) spaceRunes")
    case None
    then show ?thesis .
  next
    case (Some w)
    then have "w \<in> set spaceRunes"
      by (auto simp: find_Some_iff)
    then have "w \<noteq> []"
      by (rule spaceRunes_not_Nil)
    with z Some show ?thesis
      by (simp add: leadingSpace_def)
  qed
  then show "\<forall>w\<in>set spaceRunes. \<not> prefix w s"
    by (simp add: find_None_iff)
next
  assume "\<forall>w\<in>set spaceRunes. \<not> prefix w s"
  then have "find (\<lambda>w. prefix w s) spaceRunes = None"
    by (simp add: find_None_iff)
  then show "leadingSpace s = 0"
    by (simp add: leadingSpace_def)
qed

lemma trailingSpace_zero_iff: "trailingSpace s = 0 \<longleftrightarrow> (\<forall>w\<in>set spaceRunes. \<not> suffix w s)"
proof
  assume z: "trailingSpace s = 0"
  have "find (\<lambda>w. suffix w s) spaceRunes = None"
  proof (cases "find (\<lambda>w. suffix w s) spaceRunes")
    case None
    then show ?thesis .
  next
    case (Some w)
    then have "w \<in> set spaceRunes"
      by (auto simp: find_Some_iff)
    then have "w \<noteq> []"
      by (rule spaceRunes_not_Nil)
    with z Some show ?thesis
      by (simp add: trailingSpace_def)
  qed
  then show "\<forall>w\<in>set spaceRunes. \<not> suffix w s"
    by (simp add: find_None_iff)
next
  assume "\<forall>w\<in>set spaceRunes. \<not> suffix w s"
  then have "find (\<lambda>w. suffix w s) spaceRunes = None"
    by (simp add: find_None_iff)
  then show "trailingSpace s = 0"
    by (simp add: trailingSpace_def)
qed

text \<open>Trimming removes no separator.\<close>

lemma sep_trimLeftSpace: "PathSeparator \<in> set (trimLeftSpace s) \<longleftrightarrow> PathSeparator \<in> set s"
proof (induction s rule: trimLeftSpace.induct)
  case (1 s)
  show ?case
  proof (cases "leadingSpace s = 0")
    case True
    then show ?thesis by (simp add: trimLeftSpace.simps)
  next
    case False
    then have "PathSeparator \<notin> set (take (leadingSpace s) s)"
      using leadingSpace_rune spaceRunes_no_sep by blast
    moreover have "set s = set (take (leadingSpace s) s) \<union> set (drop (leadingSpace s) s)"
      by (metis append_take_drop_id set_append)
    ultimately have "PathSeparator \<in> set (drop (leadingSpace s) s) \<longleftrightarrow> PathSeparator \<in> set s"
      by auto
    with 1 False show ?thesis
      by (subst trimLeftSpace.simps) simp
  qed
qed

lemma sep_trimRightSpace: "PathSeparator \<in> set (trimRightSpace s) \<longleftrightarrow> PathSeparator \<in> set s"
proof (induction s rule: trimRightSpace.induct)
  case (1 s)
  show ?case
  proof (cases "trailingSpace s = 0")
    case True
    then show ?thesis by (simp add: trimRightSpace.simps)
  next
    case False
    then have "PathSeparator \<notin> set (drop (length s - trailingSpace s) s)"
      using trailingSpace_rune spaceRunes_no_sep by blast
    moreover have "set s = set (take (length s - trailingSpace s) s)
                             \<union> set (drop (length s - trailingSpace s) s)"
      by (metis append_take_drop_id set_append)
    ultimately have "PathSeparator \<in> set (take (length s - trailingSpace s) s)
                       \<longleftrightarrow> PathSeparator \<in> set s"
      by auto
    with 1 False show ?thesis
      by (subst trimRightSpace.simps) simp
  qed
qed

lemma sep_TrimSpace: "PathSeparator \<in> set (TrimSpace s) \<longleftrightarrow> PathSeparator \<in> set s"
  by (simp add: TrimSpace_def sep_trimRightSpace sep_trimLeftSpace)

lemma Contains_sep: "Contains s [PathSeparator] \<longleftrightarrow> PathSeparator \<in> set s"
  by (induction s) auto

lemma replaceStringByte_same [simp]: "replaceStringByte s c c = s"
  by (simp add: replaceStringByte_def map_idI)

section \<open>The clean file names\<close>

lemma set_cleanFilenames:
  "set (cleanFilenames ord filenames)
     = {TrimSpace f | f. f \<in> set filenames \<and> TrimSpace f \<noteq> [] \<and> PathSeparator \<notin> set f}"
  by (auto simp: cleanFilenames_def Contains_sep sep_TrimSpace)

lemma distinct_cleanFilenames: "distinct (cleanFilenames ord filenames)"
  by (simp add: cleanFilenames_def)

lemma cleanFilenames_empty_iff:
  "cleanFilenames ord filenames = []
     \<longleftrightarrow> (\<forall>f\<in>set filenames. TrimSpace f = [] \<or> PathSeparator \<in> set f)"
proof -
  have "cleanFilenames ord filenames = [] \<longleftrightarrow> set (cleanFilenames ord filenames) = {}"
    by simp
  then show ?thesis
    by (auto simp: set_cleanFilenames)
qed

section \<open>Where the errors of SetRoot come from\<close>

lemma GetProjectDir_error:
  "GetProjectDir sys = Inl err \<Longrightarrow> (\<exists>msg. err = External msg) \<or> (\<exists>msg. err = ErsNew msg)"
  by (auto simp: GetProjectDir_def GetMainFile_def Let_def split: sum.splits if_splits)

lemma Glob_error: "Glob sys pattern = Inl err \<Longrightarrow> \<exists>msg. err = External msg"
  by (auto simp: Glob_def split: sum.splits if_splits)

lemma findFiles_error: "findFiles sys dirPath fileNames = Inl err \<Longrightarrow> \<exists>msg. err = External msg"
  by (induction fileNames arbitrary: err) (auto dest: Glob_error split: sum.splits)

lemma walk_error:
  "walk sys entryFile names found w paths = Inl err \<Longrightarrow> \<exists>msg. err = External msg"
  by (induction paths arbitrary: found) (auto dest: findFiles_error split: sum.splits if_splits)

lemma loadEnvs_error:
  "fst (loadEnvs sys envFiles found w) = Some err \<Longrightarrow>
     err = ErrNoEnvDefined \<or> err = ErrMissingEnvs \<or> (\<exists>msg. err = External msg)"
proof -
  assume a: "fst (loadEnvs sys envFiles found w) = Some err"
  have l: "fst (Load sys found w) = Some err \<Longrightarrow> \<exists>msg. err = External msg"
    by (rule Load_error_External)
  from a show ?thesis
    using l by (auto simp: loadEnvs_def Wrap_def case_prod_beta split: if_splits)
qed

lemma resolveRoot_bad:
  assumes "TrimSpace entryFile \<noteq> []" and "definedEnvsFlag envFiles"
    and "cleanFilenames (mapOrder sys) envFiles = []"
  shows "resolveRoot sys w entryFile envFiles = (Inl ErrBadEnvsDefined, w)"
  using assms by (simp add: resolveRoot_def Let_def)

lemma resolveRoot_error:
  assumes "fst (resolveRoot sys w entryFile envFiles) = Inl err"
    and "\<not> (definedEnvsFlag envFiles \<and> cleanFilenames (mapOrder sys) envFiles = [])"
  shows "(\<exists>msg. err = External msg) \<or> (\<exists>msg. err = ErsNew msg)"
proof (cases "GetProjectDir sys")
  case (Inl e)
  with assms GetProjectDir_error [OF Inl] show ?thesis
    by (auto simp: resolveRoot_def Let_def split: if_splits)
next
  case (Inr projectDir)
  show ?thesis
  proof (cases "walk sys (TrimSpace entryFile) (cleanFilenames (mapOrder sys) envFiles) [] w
                  (IterateThroughPath projectDir)")
    case (Inl e)
    with assms Inr walk_error [OF Inl] show ?thesis
      by (auto simp: resolveRoot_def Let_def split: if_splits)
  next
    case walked: (Inr r)
    obtain found w' where "r = (found, w')"
      by (cases r)
    with assms Inr walked show ?thesis
      by (auto simp: resolveRoot_def Let_def split: if_splits)
  qed
qed

text \<open>An entry file that is empty after trimming is refused before anything else.\<close>

lemma SetRoot_blank_entry:
  "TrimSpace entryFile = [] \<Longrightarrow>
     SetRoot sys w entryFile envFiles = (Some (ErsNew ''entry file not defined''), w)"
  by (simp add: SetRoot_def resolveRoot_def Wrap_def)

subsection \<open>C6: bad env file names\<close>

text \<open>
  C6. The claim: \<open>SetRoot\<close> fails with \<open>ErrBadEnvsDefined\<close> exactly when the env file names,
  joined, are not empty after trimming and no name survives the filter. The entry file is
  checked first: with an empty entry file the call fails with "entry file not defined",
  whatever the env file names are.
\<close>

theorem C6_counterexample:
  "TrimSpace (concat [''a/b'']) \<noteq> []
     \<and> cleanFilenames (\<lambda>name. 0) [''a/b''] = []
     \<and> fst (SetRoot (projSystem (\<lambda>name. Inr []) (\<lambda>name. 0)) freshWorld [] [''a/b''])
          = Some (ErsNew ''entry file not defined'')
     \<and> fst (SetRoot (projSystem (\<lambda>name. Inr []) (\<lambda>name. 0)) freshWorld [] [''a/b''])
          \<noteq> Some ErrBadEnvsDefined"
proof -
  have t: "TrimSpace (concat [''a/b'']) \<noteq> []"
    by code_simp
  have c: "cleanFilenames (\<lambda>name. 0) [''a/b''] = []"
    by (simp add: cleanFilenames_empty_iff)
  show ?thesis
    using t c by (simp add: SetRoot_def resolveRoot_def Wrap_def)
qed

text \<open>
  C6, amended: for an entry file that is not empty after trimming, \<open>SetRoot\<close> fails with
  \<open>ErrBadEnvsDefined\<close> exactly when the env file names, joined, are not empty after
  trimming and every name is empty after trimming or has a separator. The names that
  survive the filter are the trimmed names, each once.
\<close>

theorem C6_bad_envs_iff:
  assumes "TrimSpace entryFile \<noteq> []"
  shows "(fst (SetRoot sys w entryFile envFiles) = Some ErrBadEnvsDefined
            \<longleftrightarrow> TrimSpace (concat envFiles) \<noteq> []
                \<and> (\<forall>name\<in>set envFiles. TrimSpace name = [] \<or> PathSeparator \<in> set name))
         \<and> distinct (cleanFilenames (mapOrder sys) envFiles)
         \<and> set (cleanFilenames (mapOrder sys) envFiles)
             = {TrimSpace name | name.
                  name \<in> set envFiles \<and> TrimSpace name \<noteq> [] \<and> PathSeparator \<notin> set name}"
proof -
  let ?bad = "definedEnvsFlag envFiles \<and> cleanFilenames (mapOrder sys) envFiles = []"
  have "fst (SetRoot sys w entryFile envFiles) = Some ErrBadEnvsDefined \<longleftrightarrow> ?bad"
  proof
    assume ?bad
    with assms have "resolveRoot sys w entryFile envFiles = (Inl ErrBadEnvsDefined, w)"
      by (simp add: resolveRoot_bad)
    then show "fst (SetRoot sys w entryFile envFiles) = Some ErrBadEnvsDefined"
      by (simp add: SetRoot_def Wrap_def)
  next
    assume b: "fst (SetRoot sys w entryFile envFiles) = Some ErrBadEnvsDefined"
    show ?bad
    proof (rule ccontr)
      assume n: "\<not> ?bad"
      obtain x w' where r: "resolveRoot sys w entryFile envFiles = (x, w')"
        by (cases "resolveRoot sys w entryFile envFiles")
      show False
      proof (cases x)
        case (Inl err)
        with r have "fst (resolveRoot sys w entryFile envFiles) = Inl err"
          by simp
        from resolveRoot_error [OF this n]
        have "err \<noteq> ErrBadEnvsDefined"
          by auto
        with b r Inl show False
          by (simp add: SetRoot_def Wrap_def)
      next
        case (Inr found)
        with b r have "fst (loadEnvs sys envFiles found w') = Some ErrBadEnvsDefined"
          by (simp add: SetRoot_def)
        from loadEnvs_error [OF this] show False
          by simp
      qed
    qed
  qed
  then show ?thesis
    by (simp add: definedEnvsFlag_def cleanFilenames_empty_iff set_cleanFilenames
        distinct_cleanFilenames)
qed

theorem C6_witness:
  "fst (SetRoot (projSystem (\<lambda>name. Inr []) (\<lambda>name. 0)) freshWorld ''app.id''
          ['' '', ''conf/dev.env'']) = Some ErrBadEnvsDefined
   \<and> fst (SetRoot (projSystem (\<lambda>name. Inr []) (\<lambda>name. 0)) freshWorld ''app.id''
          [''dev.env'']) \<noteq> Some ErrBadEnvsDefined"
proof -
  have e: "TrimSpace ''app.id'' \<noteq> []"
    by code_simp
  have t: "TrimSpace (concat ['' '', ''conf/dev.env'']) \<noteq> []" "TrimSpace '' '' = []"
    "TrimSpace ''dev.env'' \<noteq> []"
    by code_simp+
  show ?thesis
    using C6_bad_envs_iff [OF e, of "projSystem (\<lambda>name. Inr []) (\<lambda>name. 0)" freshWorld
        "['' '', ''conf/dev.env'']"]
      C6_bad_envs_iff [OF e, of "projSystem (\<lambda>name. Inr []) (\<lambda>name. 0)" freshWorld
        "[''dev.env'']"]
      t
    by simp
qed

lemma walk_loaded:
  "walk sys entryFile names found w paths = Inr (found', w') \<Longrightarrow> loaded w' = loaded w"
  by (induction paths arbitrary: found) (auto split: sum.splits if_splits)

lemma resolveRoot_loaded: "loaded (snd (resolveRoot sys w entryFile envFiles)) = loaded w"
proof (cases "GetProjectDir sys")
  case (Inl e)
  then show ?thesis
    by (simp add: resolveRoot_def Let_def)
next
  case (Inr projectDir)
  show ?thesis
  proof (cases "walk sys (TrimSpace entryFile) (cleanFilenames (mapOrder sys) envFiles) [] w
                  (IterateThroughPath projectDir)")
    case (Inl e)
    with Inr show ?thesis
      by (simp add: resolveRoot_def Let_def)
  next
    case walked: (Inr r)
    obtain found w' where r: "r = (found, w')"
      by (cases r)
    with walked have "loaded w' = loaded w"
      by (simp add: walk_loaded)
    with Inr walked r show ?thesis
      by (simp add: resolveRoot_def Let_def)
  qed
qed

subsection \<open>C5: a requested env file is missing\<close>

text \<open>
  C5. When \<open>SetRoot\<close> is called with env file names (not empty when joined and trimmed), has
  found its root and collected the candidate files, and one of the clean requested names is
  not the base name of any candidate, the call fails with \<open>ErrMissingEnvs\<close> and the loader
  has not been called: the list of loader calls is what it was before \<open>SetRoot\<close>.
\<close>

theorem C5_missing_env_no_load:
  assumes "resolveRoot sys w entryFile envFiles = (Inr foundEnvPaths, w')"
    and "definedEnvsFlag envFiles"
    and "requiredFile \<in> set (cleanFilenames (mapOrder sys) envFiles)"
    and "requiredFile \<notin> set (map Base foundEnvPaths)"
  shows "SetRoot sys w entryFile envFiles = (Some ErrMissingEnvs, w') \<and> loaded w' = loaded w"
proof -
  from assms(2) have "envFiles \<noteq> []"
    by (auto simp: definedEnvsFlag_def)
  with assms have "loadEnvs sys envFiles foundEnvPaths w' = (Some ErrMissingEnvs, w')"
    by (auto simp: loadEnvs_def Wrap_def)
  moreover have "loaded w' = loaded w"
    using resolveRoot_loaded [of sys w entryFile envFiles] assms(1) by simp
  ultimately show ?thesis
    using assms(1) by (simp add: SetRoot_def)
qed

lemma cleanFilenames_dev_prod:
  "cleanFilenames (\<lambda>name. 0) [''dev.env'', ''prod.env''] = [''dev.env'', ''prod.env'']"
proof -
  have "TrimSpace ''dev.env'' = ''dev.env''" "TrimSpace ''prod.env'' = ''prod.env''"
    by code_simp+
  moreover have "\<not> Contains ''dev.env'' ''/''" "\<not> Contains ''prod.env'' ''/''"
    by code_simp+
  ultimately show ?thesis
    by (simp add: cleanFilenames_def)
qed

lemma resolveRoot_projSystem_dev_prod:
  assumes "validKey (grootEnv w)"
  shows "resolveRoot (projSystem c (\<lambda>name. 0)) w ''app.id'' [''dev.env'', ''prod.env'']
           = (Inr [''/home/u/proj/dev.env''], Setenv (grootEnv w) ''/home/u/proj'' w)"
proof -
  let ?sys = "projSystem c (\<lambda>name. 0)"
  have t: "TrimSpace ''app.id'' = ''app.id''"
    by code_simp
  have f: "definedEnvsFlag [''dev.env'', ''prod.env'']"
    unfolding definedEnvsFlag_def by code_simp
  have j: "Join [''/home/u/proj/src'', ''dev.env''] = ''/home/u/proj/src/dev.env''"
    "Join [''/home/u/proj/src'', ''prod.env''] = ''/home/u/proj/src/prod.env''"
    "Join [''/home/u/proj/src'', ''app.id''] = ''/home/u/proj/src/app.id''"
    "Join [''/home/u/proj'', ''dev.env''] = ''/home/u/proj/dev.env''"
    "Join [''/home/u/proj'', ''prod.env''] = ''/home/u/proj/prod.env''"
    "Join [''/home/u/proj'', ''app.id''] = ''/home/u/proj/app.id''"
    by code_simp+
  have g: "Glob ?sys ''/home/u/proj/src/dev.env'' = Inr []"
    "Glob ?sys ''/home/u/proj/src/prod.env'' = Inr []"
    "Glob ?sys ''/home/u/proj/dev.env'' = Inr [''/home/u/proj/dev.env'']"
    "Glob ?sys ''/home/u/proj/prod.env'' = Inr []"
    by (simp_all add: Glob_def hasMeta_def Lstat_def projTree_def)
  have s1: "Stat ?sys ''/home/u/proj/src/app.id'' \<noteq> Inr NonDirectory"
    by (simp add: Stat_def projTree_def)
  have s2: "Stat ?sys ''/home/u/proj/app.id'' = Inr NonDirectory"
    by (simp add: Stat_def projTree_def)
  have w: "walk ?sys ''app.id'' [''dev.env'', ''prod.env''] [] w
             (IterateThroughPath ''/home/u/proj/src'')
             = Inr ([''/home/u/proj/dev.env''], Setenv (grootEnv w) ''/home/u/proj'' w)"
    by (simp add: chain_projSystem j g s1 s2)
  have r: "GetRoot (Setenv (grootEnv w) ''/home/u/proj'' w) = ''/home/u/proj''"
    using assms by (simp add: GetRoot_Setenv)
  have e: "\<not> HasSuffix ''app.id'' ''.env''"
    by code_simp
  show ?thesis
    using e r
    by (simp add: resolveRoot_def t f cleanFilenames_dev_prod GetProjectDir_projSystem w
        GetRoot_def)
qed

theorem C5_witness:
  "SetRoot (projSystem (\<lambda>name. Inr []) (\<lambda>name. 0)) freshWorld ''app.id'' [''dev.env'', ''prod.env'']
     = (Some ErrMissingEnvs, Setenv (grootEnv freshWorld) ''/home/u/proj'' freshWorld)
   \<and> loaded (Setenv (grootEnv freshWorld) ''/home/u/proj'' freshWorld) = loaded freshWorld"
proof -
  have f: "definedEnvsFlag [''dev.env'', ''prod.env'']"
    unfolding definedEnvsFlag_def by code_simp
  have m: "''prod.env'' \<in> set (cleanFilenames (mapOrder (projSystem (\<lambda>name. Inr []) (\<lambda>name. 0)))
                                   [''dev.env'', ''prod.env''])"
    by (simp add: cleanFilenames_dev_prod)
  have b: "Base ''/home/u/proj/dev.env'' = ''dev.env''"
    by code_simp
  have n: "''prod.env'' \<notin> set (map Base [''/home/u/proj/dev.env''])"
    by (simp add: b)
  have k: "validKey (grootEnv freshWorld)"
    by simp
  show ?thesis
    by (rule C5_missing_env_no_load [OF resolveRoot_projSystem_dev_prod [OF k] f m n])
qed

section \<open>Trimming twice\<close>

lemma leadingSpace_trimLeftSpace: "leadingSpace (trimLeftSpace s) = 0"
  by (induction s rule: trimLeftSpace.induct) (subst trimLeftSpace.simps, simp)

lemma trailingSpace_trimRightSpace: "trailingSpace (trimRightSpace s) = 0"
  by (induction s rule: trimRightSpace.induct) (subst trimRightSpace.simps, simp)

lemma prefix_trimRightSpace: "prefix (trimRightSpace s) s"
proof (induction s rule: trimRightSpace.induct)
  case (1 s)
  show ?case
  proof (cases "trailingSpace s = 0")
    case True
    then show ?thesis by (simp add: trimRightSpace.simps)
  next
    case False
    with 1 have "prefix (trimRightSpace (take (length s - trailingSpace s) s))
                   (take (length s - trailingSpace s) s)"
      by simp
    moreover have "prefix (take (length s - trailingSpace s) s) s"
      by (rule take_is_prefix)
    ultimately have "prefix (trimRightSpace (take (length s - trailingSpace s) s)) s"
      by (rule prefix_order.trans)
    with False show ?thesis
      by (subst trimRightSpace.simps) simp
  qed
qed

lemma leadingSpace_prefix:
  assumes "prefix t s" and "leadingSpace s = 0"
  shows "leadingSpace t = 0"
proof -
  have "\<not> prefix w t" if "w \<in> set spaceRunes" for w
  proof
    assume "prefix w t"
    with assms(1) have "prefix w s"
      by (meson prefix_order.trans)
    with assms(2) that show False
      by (simp add: leadingSpace_zero_iff)
  qed
  then show ?thesis
    by (simp add: leadingSpace_zero_iff)
qed

lemma TrimSpace_idem [simp]: "TrimSpace (TrimSpace s) = TrimSpace s"
proof -
  let ?t = "trimRightSpace (trimLeftSpace s)"
  have "leadingSpace ?t = 0"
    using prefix_trimRightSpace leadingSpace_trimLeftSpace by (rule leadingSpace_prefix)
  then have "trimLeftSpace ?t = ?t"
    by (simp add: trimLeftSpace.simps)
  moreover have "trimRightSpace ?t = ?t"
    using trailingSpace_trimRightSpace [of "trimLeftSpace s"] by (simp add: trimRightSpace.simps)
  ultimately show ?thesis
    by (simp add: TrimSpace_def)
qed

lemma ensureCleanPath_TrimSpace: "ensureCleanPath (TrimSpace s) = ensureCleanPath s"
  by (simp add: ensureCleanPath_def)

text \<open>Trimming keeps a leading separator.\<close>

lemma IsAbs_iff: "IsAbs s \<longleftrightarrow> (\<exists>r. s = PathSeparator # r)"
  by (cases s) (auto simp: IsAbs_def)

lemma IsAbs_trimRightSpace: "IsAbs s \<Longrightarrow> IsAbs (trimRightSpace s)"
proof (induction s rule: trimRightSpace.induct)
  case (1 s)
  show ?case
  proof (cases "trailingSpace s = 0")
    case True
    with "1.prems" show ?thesis by (simp add: trimRightSpace.simps)
  next
    case False
    let ?n = "trailingSpace s"
    from "1.prems" obtain r where s: "s = PathSeparator # r"
      by (auto simp: IsAbs_iff)
    have w: "drop (length s - ?n) s \<in> set spaceRunes"
      using False by (rule trailingSpace_rune)
    have "?n < length s"
    proof (rule ccontr)
      assume "\<not> ?n < length s"
      then have "drop (length s - ?n) s = s"
        by simp
      with w have "PathSeparator \<notin> set s"
        using spaceRunes_no_sep by fastforce
      with s show False by simp
    qed
    then have "IsAbs (take (length s - ?n) s)"
      using s by (cases "length s - ?n") (auto simp: IsAbs_iff)
    with 1 False have "IsAbs (trimRightSpace (take (length s - ?n) s))"
      by simp
    with False show ?thesis
      by (subst trimRightSpace.simps) simp
  qed
qed

lemma IsAbs_trimLeftSpace: "IsAbs s \<Longrightarrow> trimLeftSpace s = s"
proof -
  assume "IsAbs s"
  then obtain r where s: "s = PathSeparator # r"
    by (auto simp: IsAbs_iff)
  have "\<not> prefix w s" if "w \<in> set spaceRunes" for w
  proof
    assume "prefix w s"
    moreover from that have "w \<noteq> []" and "PathSeparator \<notin> set w"
      by (simp_all add: spaceRunes_not_Nil spaceRunes_no_sep)
    ultimately show False
      using s by (cases w) auto
  qed
  then have "leadingSpace s = 0"
    by (simp add: leadingSpace_zero_iff)
  then show ?thesis
    by (simp add: trimLeftSpace.simps)
qed

lemma IsAbs_TrimSpace: "IsAbs s \<Longrightarrow> IsAbs (TrimSpace s)"
  by (simp add: TrimSpace_def IsAbs_trimLeftSpace IsAbs_trimRightSpace)

lemma Rel_same [simp]: "Rel p p = Inr ''.''"
  by (simp add: Rel_def)

subsection \<open>C7: the root set from a path\<close>

text \<open>
  C7. The claim: for every existing absolute directory \<open>absoluteDir\<close>, after a successful
  \<open>SetRootFromPath absoluteDir\<close>, \<open>IsRoot absoluteDir\<close> is true and
  \<open>GetRelativeToRoot absoluteDir\<close> returns \<open>.\<close> without error. \<open>SetRootFromPath\<close> stores the
  path with \<open>os.Setenv\<close> under the key \<open>grootEnv\<close> and ignores the error: after
  \<open>SetGrootKey("A=B")\<close> the call on the existing directory \<open>/home/u/proj\<close> returns no error
  and stores nothing, \<open>IsRoot\<close> is false and \<open>GetRelativeToRoot\<close> fails with "root not set".
\<close>

theorem C7_counterexample:
  "SetGrootKey freshWorld ''A=B'' = (None, keyedWorld)
     \<and> IsAbs ''/home/u/proj''
     \<and> Stat (projSystem (\<lambda>name. Inr []) (\<lambda>name. 0)) ''/home/u/proj'' = Inr Directory
     \<and> SetRootFromPath (projSystem (\<lambda>name. Inr []) (\<lambda>name. 0)) keyedWorld ''/home/u/proj''
          = (None, keyedWorld)
     \<and> IsRoot keyedWorld ''/home/u/proj'' = False
     \<and> GetRelativeToRoot keyedWorld ''/home/u/proj'' = Inl (ErsNew ''root not set'')"
proof -
  let ?sys = "projSystem (\<lambda>name. Inr []) (\<lambda>name. 0)"
  have t: "TrimSpace ''/home/u/proj'' = ''/home/u/proj''"
    by code_simp
  have s: "Stat ?sys ''/home/u/proj'' = Inr Directory"
    by (simp add: Stat_def projTree_def)
  have a: "IsAbs ''/home/u/proj''"
    by (simp add: IsAbs_def)
  have r: "GetRoot keyedWorld = []"
    using keyedWorld_key by (rule GetRoot_invalid_key)
  have "SetRootFromPath ?sys keyedWorld ''/home/u/proj'' = (None, keyedWorld)"
    using a by (simp add: SetRootFromPath_def t s Setenv_invalid_key [OF keyedWorld_key])
  then show ?thesis
    using a s r by (simp add: SetGrootKey_AB IsRoot_def GetRelativeToRoot_def)
qed

text \<open>
  C7, amended: with a key \<open>grootEnv\<close> that names an environment variable (as \<open>GROOT\<close> does),
  for every absolute path \<open>absoluteDir\<close>, \<open>SetRootFromPath absoluteDir\<close> succeeds exactly when
  the trimmed path is an existing directory, and after a successful call the root is the
  trimmed path, \<open>IsRoot absoluteDir\<close> is true and \<open>GetRelativeToRoot absoluteDir\<close> returns
  \<open>.\<close> without error.
\<close>

theorem C7_SetRootFromPath_round_trip:
  assumes "IsAbs absoluteDir" and "validKey (grootEnv w)"
  shows "(fst (SetRootFromPath sys w absoluteDir) = None
            \<longleftrightarrow> Stat sys (TrimSpace absoluteDir) = Inr Directory)
       \<and> (fst (SetRootFromPath sys w absoluteDir) = None \<longrightarrow>
            GetRoot (snd (SetRootFromPath sys w absoluteDir)) = TrimSpace absoluteDir
          \<and> IsRoot (snd (SetRootFromPath sys w absoluteDir)) absoluteDir
          \<and> GetRelativeToRoot (snd (SetRootFromPath sys w absoluteDir)) absoluteDir = Inr ''.'')"
proof -
  let ?path = "TrimSpace absoluteDir"
  have abs: "IsAbs ?path"
    using assms(1) by (rule IsAbs_TrimSpace)
  then have ne: "?path \<noteq> []"
    by (auto simp: IsAbs_iff)
  have run: "SetRootFromPath sys w absoluteDir =
               (case Stat sys ?path of
                  Inl msg \<Rightarrow> (Some (External msg), w)
                | Inr fi \<Rightarrow>
                    if fi \<noteq> Directory then (Some (ErsNew ''path is not a directory''), w)
                    else (None, Setenv (grootEnv w) ?path w))"
    using abs ne by (simp add: SetRootFromPath_def Let_def Wrap_def split: sum.splits)
  have ok: "fst (SetRootFromPath sys w absoluteDir) = None \<longleftrightarrow> Stat sys ?path = Inr Directory"
    by (auto simp: run split: sum.splits)
  have after: "GetRoot (snd (SetRootFromPath sys w absoluteDir)) = ?path
          \<and> IsRoot (snd (SetRootFromPath sys w absoluteDir)) absoluteDir
          \<and> GetRelativeToRoot (snd (SetRootFromPath sys w absoluteDir)) absoluteDir = Inr ''.''"
    if st: "Stat sys ?path = Inr Directory"
  proof -
    from st have w': "snd (SetRootFromPath sys w absoluteDir) = Setenv (grootEnv w) ?path w"
      by (simp add: run)
    from st have "CHR 0x00 \<notin> set ?path"
      by (auto simp: Stat_def split: if_splits)
    with assms(2) have root: "GetRoot (Setenv (grootEnv w) ?path w) = ?path"
      by (rule GetRoot_Setenv)
    show ?thesis
      using ne by (simp add: w' IsRoot_def GetRelativeToRoot_def root ensureCleanPath_TrimSpace)
  qed
  show ?thesis
    using ok after by blast
qed

theorem C7_witness:
  "fst (SetRootFromPath (projSystem (\<lambda>name. Inr []) (\<lambda>name. 0)) freshWorld ''/home/u/proj '')
     = None
   \<and> GetRoot (snd (SetRootFromPath (projSystem (\<lambda>name. Inr []) (\<lambda>name. 0)) freshWorld
                     ''/home/u/proj '')) = ''/home/u/proj''
   \<and> IsRoot (snd (SetRootFromPath (projSystem (\<lambda>name. Inr []) (\<lambda>name. 0)) freshWorld
                    ''/home/u/proj '')) ''/home/u/proj ''
   \<and> GetRelativeToRoot (snd (SetRootFromPath (projSystem (\<lambda>name. Inr []) (\<lambda>name. 0)) freshWorld
                               ''/home/u/proj '')) ''/home/u/proj '' = Inr ''.''"
proof -
  let ?sys = "projSystem (\<lambda>name. Inr []) (\<lambda>name. 0)"
  have a: "IsAbs ''/home/u/proj ''"
    by (simp add: IsAbs_def)
  have k: "validKey (grootEnv freshWorld)"
    by simp
  have t: "TrimSpace ''/home/u/proj '' = ''/home/u/proj''"
    by code_simp
  have s: "Stat ?sys ''/home/u/proj'' = Inr Directory"
    by (simp add: Stat_def projTree_def)
  from C7_SetRootFromPath_round_trip [OF a k, of ?sys] t s show ?thesis
    by simp
qed

section \<open>The directory a path names\<close>

text \<open>
  The elements that \<open>Clean\<close> keeps of a path name the directory: a rooted path names the
  directory reached from the root through the kept names; a relative path is read from the
  working directory, each kept \<open>..\<close> going one level up from it.
\<close>

definition keptElems :: "string \<Rightarrow> string list" where
  "keptElems path = cleanElems (IsAbs path) [] (splitSep path)"

text \<open>
  The depth of the directory a path names: below the root for a rooted path, and relative
  to the working directory for a relative one, so that \<open>..\<close> has depth \<open>-1\<close>.
\<close>

definition dirDepth :: "string \<Rightarrow> int" where
  "dirDepth path =
     int (length (filter (\<lambda>e. e \<noteq> ''..'') (keptElems path)))
       - int (length (filter (\<lambda>e. e = ''..'') (keptElems path)))"

text \<open>The parent directory of a path: \<open>filepath.Join(path, "..")\<close>.\<close>

definition parentDir :: "string \<Rightarrow> string" where
  "parentDir path = Join [path, ''..'']"

text \<open>A path ends in a name when its last element is neither empty nor \<open>.\<close> nor \<open>..\<close>.\<close>

definition endsInName :: "string \<Rightarrow> bool" where
  "endsInName path \<longleftrightarrow>
     last (splitSep path) \<noteq> [] \<and> last (splitSep path) \<noteq> ''.'' \<and> last (splitSep path) \<noteq> ''..''"

lemma splitSep_append: "splitSep (s @ PathSeparator # r) = splitSep s @ splitSep r"
proof (induction s rule: splitSep_induct)
  case (elem e)
  then show ?case
    by (simp add: splitSep_append_sep splitSep_no_sep)
next
  case (more e r0)
  have "splitSep ((e @ PathSeparator # r0) @ PathSeparator # r)
          = e # splitSep (r0 @ PathSeparator # r)"
    using more(1) splitSep_append_sep [of e "r0 @ PathSeparator # r"] by simp
  with more show ?case
    by (simp add: splitSep_append_sep)
qed

lemma cleanElems_append:
  "cleanElems rooted out (es @ fs) = cleanElems rooted (cleanElems rooted out es) fs"
  by (induction es arbitrary: out) auto

lemma cleanElems_invariant:
  assumes "\<forall>x\<in>set out. P x" and "\<forall>x\<in>set es. x \<noteq> [] \<and> x \<noteq> ''.'' \<longrightarrow> P x"
  shows "\<forall>x\<in>set (cleanElems rooted out es). P x"
  using assms
proof (induction es arbitrary: out)
  case Nil
  then show ?case by simp
next
  case (Cons e es)
  have rest: "\<forall>x\<in>set es. x \<noteq> [] \<and> x \<noteq> ''.'' \<longrightarrow> P x"
    using Cons.prems(2) by simp
  have b: "\<forall>x\<in>set (butlast out). P x"
    using Cons.prems(1) by (meson in_set_butlastD)
  show ?case
  proof (cases "e = [] \<or> e = ''.''")
    case True
    with Cons.IH [OF Cons.prems(1) rest] show ?thesis by auto
  next
    case False
    with Cons.prems have "\<forall>x\<in>set (out @ [e]). P x"
      by auto
    from Cons.IH [OF this rest] Cons.IH [OF b rest] Cons.IH [OF Cons.prems(1) rest] False
    show ?thesis
      by auto
  qed
qed

text \<open>The elements that \<open>Clean\<close> keeps: none is empty or \<open>.\<close>, none has a separator.\<close>

lemma cleanElems_splitSep:
  "\<forall>x\<in>set (cleanElems rooted [] (splitSep path)).
      x \<noteq> [] \<and> x \<noteq> ''.'' \<and> PathSeparator \<notin> set x"
  by (rule cleanElems_invariant) (auto dest: splitSep_elems)

text \<open>A rooted path keeps no \<open>..\<close>.\<close>

lemma cleanElems_rooted_no_dotdot:
  "''..'' \<notin> set out \<Longrightarrow> ''..'' \<notin> set (cleanElems True out es)"
proof (induction es arbitrary: out)
  case Nil
  then show ?case by simp
next
  case (Cons e es)
  have "''..'' \<notin> set (butlast out)"
    using Cons.prems by (meson in_set_butlastD)
  with Cons show ?case
    by auto
qed

text \<open>The kept \<open>..\<close> elements come first.\<close>

definition dotsFirst :: "string list \<Rightarrow> bool" where
  "dotsFirst out \<longleftrightarrow> ''..'' \<notin> set (dropWhile (\<lambda>e. e = ''..'') out)"

lemma dotsFirst_all_dots:
  assumes "dotsFirst out" and "out = [] \<or> last out = ''..''"
  shows "\<forall>e\<in>set out. e = ''..''"
proof (rule ccontr)
  assume "\<not> (\<forall>e\<in>set out. e = ''..'')"
  then have d: "dropWhile (\<lambda>e. e = ''..'') out \<noteq> []"
    by (simp add: dropWhile_eq_Nil_conv)
  then have "out \<noteq> []"
    by auto
  with assms(2) have "last out = ''..''"
    by simp
  moreover have "last out = last (dropWhile (\<lambda>e. e = ''..'') out)"
    using d by (metis last_appendR takeWhile_dropWhile_id)
  ultimately have "''..'' \<in> set (dropWhile (\<lambda>e. e = ''..'') out)"
    using d by (metis last_in_set)
  with assms(1) show False
    by (simp add: dotsFirst_def)
qed

lemma dotsFirst_snoc_dotdot:
  assumes "dotsFirst out" and "out = [] \<or> last out = ''..''"
  shows "dotsFirst (out @ [''..''])"
proof -
  from dotsFirst_all_dots [OF assms] have "\<forall>e\<in>set (out @ [''..'']). e = ''..''"
    by simp
  then have "dropWhile (\<lambda>e. e = ''..'') (out @ [''..'']) = []"
    by (simp only: dropWhile_eq_Nil_conv)
  then show ?thesis
    by (simp add: dotsFirst_def)
qed

lemma dotsFirst_snoc_name:
  assumes "dotsFirst out" and "e \<noteq> ''..''"
  shows "dotsFirst (out @ [e])"
proof -
  have "set (dropWhile (\<lambda>e. e = ''..'') (out @ [e]))
          \<subseteq> set (dropWhile (\<lambda>e. e = ''..'') out) \<union> {e}"
    by (induction out) auto
  with assms show ?thesis
    by (auto simp: dotsFirst_def)
qed

lemma dotsFirst_butlast:
  assumes "dotsFirst out"
  shows "dotsFirst (butlast out)"
proof -
  have "set (dropWhile (\<lambda>e. e = ''..'') (butlast out))
          \<subseteq> set (dropWhile (\<lambda>e. e = ''..'') out)"
    by (induction out) (auto dest: in_set_butlastD)
  with assms show ?thesis
    by (auto simp: dotsFirst_def)
qed

lemma dotsFirst_cleanElems: "dotsFirst out \<Longrightarrow> dotsFirst (cleanElems rooted out es)"
proof (induction es arbitrary: out)
  case Nil
  then show ?case by simp
next
  case (Cons e es)
  show ?case
  proof (cases "e = [] \<or> e = ''.''")
    case True
    with Cons show ?thesis by simp
  next
    case False
    show ?thesis
    proof (cases "e = ''..''")
      case dd: True
      show ?thesis
      proof (cases "out \<noteq> [] \<and> last out \<noteq> ''..''")
        case True
        with dd Cons.IH [OF dotsFirst_butlast [OF Cons.prems]] show ?thesis
          by simp
      next
        case False
        then have "out = [] \<or> last out = ''..''"
          by auto
        from dotsFirst_snoc_dotdot [OF Cons.prems this] Cons.IH [of "out @ [''..'']"]
          Cons.IH [OF Cons.prems] dd False
        show ?thesis
          by auto
      qed
    next
      case name: False
      from Cons.IH [OF dotsFirst_snoc_name [OF Cons.prems name]] False name show ?thesis
        by simp
    qed
  qed
qed

text \<open>Elements that are kept already are kept again.\<close>

lemma cleanElems_kept:
  assumes "\<forall>e\<in>set (acc @ es). e \<noteq> [] \<and> e \<noteq> ''.''"
    and "rooted \<longrightarrow> ''..'' \<notin> set (acc @ es)"
    and "dotsFirst (acc @ es)"
  shows "cleanElems rooted acc es = acc @ es"
  using assms
proof (induction es arbitrary: acc)
  case Nil
  then show ?case by simp
next
  case (Cons e es)
  have e: "e \<noteq> []" "e \<noteq> ''.''"
    using Cons.prems(1) by simp_all
  have next_ok: "\<forall>x\<in>set ((acc @ [e]) @ es). x \<noteq> [] \<and> x \<noteq> ''.''"
    "rooted \<longrightarrow> ''..'' \<notin> set ((acc @ [e]) @ es)" "dotsFirst ((acc @ [e]) @ es)"
    using Cons.prems by simp_all
  have step: "cleanElems rooted (acc @ [e]) es = acc @ e # es"
    using Cons.IH [OF next_ok] by simp
  show ?case
  proof (cases "e = ''..''")
    case True
    have nr: "\<not> rooted"
      using Cons.prems(2) True by auto
    have "\<forall>x\<in>set acc. x = ''..''"
    proof (rule ccontr)
      assume "\<not> (\<forall>x\<in>set acc. x = ''..'')"
      then obtain x where "x \<in> set acc" "x \<noteq> ''..''"
        by blast
      then have "dropWhile (\<lambda>e. e = ''..'') (acc @ e # es)
                   = dropWhile (\<lambda>e. e = ''..'') acc @ e # es"
        by (simp add: dropWhile_append1)
      with Cons.prems(3) True show False
        by (simp add: dotsFirst_def)
    qed
    then have "\<not> (acc \<noteq> [] \<and> last acc \<noteq> ''..'')"
      using last_in_set by blast
    with True nr step show ?thesis
      by auto
  next
    case False
    with e step show ?thesis
      by simp
  qed
qed

lemma Clean_unfold:
  "path \<noteq> [] \<Longrightarrow>
     Clean path =
       (if IsAbs path
        then PathSeparator # joinSep (keptElems path)
        else if keptElems path = [] then ''.''
        else joinSep (keptElems path))"
  by (cases path) (auto simp: Clean_def Let_def keptElems_def IsAbs_def)

lemma keptElems_form:
  "\<forall>e\<in>set (keptElems path). e \<noteq> [] \<and> e \<noteq> ''.'' \<and> PathSeparator \<notin> set e"
  "IsAbs path \<longrightarrow> ''..'' \<notin> set (keptElems path)"
  "dotsFirst (keptElems path)"
proof -
  have "dotsFirst []"
    by (simp add: dotsFirst_def)
  then show "dotsFirst (keptElems path)"
    unfolding keptElems_def by (rule dotsFirst_cleanElems)
qed (simp_all add: keptElems_def cleanElems_splitSep cleanElems_rooted_no_dotdot)

lemma joinSep_not_Nil: "es \<noteq> [] \<Longrightarrow> hd es \<noteq> [] \<Longrightarrow> joinSep es \<noteq> []"
  by (cases es rule: joinSep.cases) auto

lemma IsAbs_joinSep:
  assumes "es \<noteq> []" and "hd es \<noteq> []" and "PathSeparator \<notin> set (hd es)"
  shows "\<not> IsAbs (joinSep es)"
proof -
  from assms obtain c cs rest where "es = (c # cs) # rest" and "c \<noteq> PathSeparator"
    by (cases es; cases "hd es") auto
  then show ?thesis
    by (cases rest) (auto simp: IsAbs_def)
qed

lemma IsAbs_Clean [simp]: "IsAbs (Clean path) \<longleftrightarrow> IsAbs path"
proof (cases "path = []")
  case True
  then show ?thesis by (simp add: IsAbs_def)
next
  case False
  show ?thesis
  proof (cases "IsAbs path")
    case True
    with False show ?thesis
      by (simp add: Clean_unfold) (simp add: IsAbs_def)
  next
    case rel: False
    show ?thesis
    proof (cases "keptElems path = []")
      case True
      with False rel show ?thesis
        by (simp add: Clean_unfold) (simp add: IsAbs_def)
    next
      case ne: False
      then have "hd (keptElems path) \<in> set (keptElems path)"
        by simp
      with keptElems_form(1) [of path]
      have "hd (keptElems path) \<noteq> []" "PathSeparator \<notin> set (hd (keptElems path))"
        by blast+
      with ne have "\<not> IsAbs (joinSep (keptElems path))"
        by (simp add: IsAbs_joinSep)
      with False rel ne show ?thesis
        by (simp add: Clean_unfold)
    qed
  qed
qed

text \<open>\<open>Clean\<close> names the same directory as the path it cleans.\<close>

lemma keptElems_Clean [simp]: "keptElems (Clean path) = keptElems path"
proof (cases "path = []")
  case True
  then show ?thesis
    by (simp add: keptElems_def IsAbs_def splitSep_no_sep)
next
  case False
  let ?out = "keptElems path"
  have same: "cleanElems (IsAbs path) [] ?out = ?out"
    using cleanElems_kept [of "[]" ?out "IsAbs path"] keptElems_form [of path]
    by simp
  have sj: "?out \<noteq> [] \<Longrightarrow> splitSep (joinSep ?out) = ?out"
    using keptElems_form(1) [of path] by (simp add: splitSep_joinSep)
  have "keptElems (Clean path) = cleanElems (IsAbs path) [] (splitSep (Clean path))"
    by (simp add: keptElems_def)
  also have "\<dots> = ?out"
  proof (cases "?out = []")
    case True
    with False show ?thesis
      by (auto simp: Clean_unfold splitSep_no_sep)
  next
    case ne: False
    with False sj same show ?thesis
      by (auto simp: Clean_unfold)
  qed
  finally show ?thesis .
qed

lemma dirDepth_Clean [simp]: "dirDepth (Clean path) = dirDepth path"
  by (simp add: dirDepth_def)

lemma Clean_dot [simp]: "Clean ''.'' = ''.''"
  by (simp add: Clean_def splitSep_no_sep)

lemma Clean_not_Nil [simp]: "Clean path \<noteq> []"
proof (cases "path = []")
  case True
  then show ?thesis by simp
next
  case False
  show ?thesis
  proof (cases "keptElems path = []")
    case True
    with False show ?thesis
      by (simp add: Clean_unfold)
  next
    case ne: False
    then have "hd (keptElems path) \<in> set (keptElems path)"
      by simp
    with keptElems_form(1) [of path] have "hd (keptElems path) \<noteq> []"
      by blast
    with ne have "joinSep (keptElems path) \<noteq> []"
      by (simp add: joinSep_not_Nil)
    with False show ?thesis
      by (simp add: Clean_unfold)
  qed
qed

lemma Clean_idem [simp]: "Clean (Clean path) = Clean path"
proof (cases "path = []")
  case True
  then show ?thesis by simp
next
  case False
  have "Clean (Clean path) =
          (if IsAbs (Clean path) then PathSeparator # joinSep (keptElems (Clean path))
           else if keptElems (Clean path) = [] then ''.''
           else joinSep (keptElems (Clean path)))"
    by (rule Clean_unfold) simp
  also have "\<dots> = (if IsAbs path then PathSeparator # joinSep (keptElems path)
                    else if keptElems path = [] then ''.''
                    else joinSep (keptElems path))"
    by simp
  also have "\<dots> = Clean path"
    by (rule Clean_unfold [OF False, symmetric])
  finally show ?thesis .
qed

section \<open>One step up\<close>

lemma Dir_dot [simp]: "Dir ''.'' = ''.''"
  by (simp add: Dir_def dirPart_def)

lemma Dir_root [simp]: "Dir [PathSeparator] = [PathSeparator]"
  by (simp add: Dir_def dirPart_def)

lemma IsAbs_dirPart [simp]: "IsAbs (dirPart path) \<longleftrightarrow> IsAbs path"
proof (cases path rule: path_last_cases)
  case elem
  then show ?thesis
    by (cases path) (auto simp: dirPart_no_sep IsAbs_def)
next
  case (dir s e)
  then have "dirPart path = s @ [PathSeparator]"
    by (simp add: dirPart_sep)
  with dir show ?thesis
    by (cases s) (auto simp: IsAbs_def)
qed

lemma IsAbs_Dir [simp]: "IsAbs (Dir path) \<longleftrightarrow> IsAbs path"
  by (simp add: Dir_def)

text \<open>\<open>Dir\<close> leaves only the root and the dot as they are.\<close>

lemma Dir_fixed:
  assumes "Dir path = path"
  shows "path = [PathSeparator] \<or> path = ''.''"
proof (cases path rule: path_last_cases)
  case elem
  with assms show ?thesis
    by (simp add: Dir_def dirPart_no_sep)
next
  case (dir s e)
  then have d: "Dir path = Clean (s @ [PathSeparator])"
    by (simp add: Dir_def dirPart_sep)
  have l: "Suc (length s) \<le> length path"
    using dir by simp
  from Clean_trailing_sep [of s]
  consider "Dir path = [PathSeparator]" | "Dir path = ''.''"
    | "length (Dir path) < Suc (length s)"
    using d by auto
  then show ?thesis
  proof cases
    case 3
    with l assms show ?thesis by simp
  qed (use assms in simp_all)
qed

lemma keptElems_Nil [simp]: "keptElems [] = []"
  by (simp add: keptElems_def)

lemma keptElems_name:
  assumes "PathSeparator \<notin> set e" and "e \<noteq> []" and "e \<noteq> ''.''" and "e \<noteq> ''..''"
  shows "keptElems e = [e]"
proof -
  from assms(1,2) have "\<not> IsAbs e"
    by (cases e) (auto simp: IsAbs_def)
  with assms show ?thesis
    by (simp add: keptElems_def splitSep_no_sep)
qed

lemma keptElems_snoc_name:
  assumes "PathSeparator \<notin> set e" and "e \<noteq> []" and "e \<noteq> ''.''" and "e \<noteq> ''..''"
  shows "keptElems (s @ PathSeparator # e) = keptElems (s @ [PathSeparator]) @ [e]"
proof -
  have a: "IsAbs (s @ PathSeparator # e) = IsAbs (s @ [PathSeparator])"
    by (cases s) (auto simp: IsAbs_def)
  have "keptElems (s @ PathSeparator # e)
          = cleanElems (IsAbs (s @ [PathSeparator])) [] (splitSep s @ [e])"
    using assms(1) by (simp add: keptElems_def a splitSep_append splitSep_no_sep)
  also have "\<dots> = cleanElems (IsAbs (s @ [PathSeparator])) [] (splitSep s) @ [e]"
    using assms by (simp add: cleanElems_append)
  also have "cleanElems (IsAbs (s @ [PathSeparator])) [] (splitSep s)
               = keptElems (s @ [PathSeparator])"
    by (simp add: keptElems_def splitSep_snoc_sep cleanElems_snoc_empty)
  finally show ?thesis .
qed

text \<open>What a path that ends in a name keeps: what its directory part keeps, and the name.\<close>

lemma keptElems_endsInName:
  assumes "endsInName path"
  shows "keptElems path = keptElems (dirPart path) @ [last (splitSep path)]"
    and "last (splitSep path) \<noteq> ''..''"
proof -
  from assms have l: "last (splitSep path) \<noteq> []" "last (splitSep path) \<noteq> ''.''"
    "last (splitSep path) \<noteq> ''..''"
    by (simp_all add: endsInName_def)
  show "last (splitSep path) \<noteq> ''..''"
    by (rule l(3))
  show "keptElems path = keptElems (dirPart path) @ [last (splitSep path)]"
  proof (cases path rule: path_last_cases)
    case elem
    with l show ?thesis
      by (simp add: splitSep_no_sep dirPart_no_sep keptElems_name)
  next
    case (dir s e)
    with l have "e \<noteq> []" "e \<noteq> ''.''" "e \<noteq> ''..''"
      by (simp_all add: splitSep_append splitSep_no_sep)
    with dir show ?thesis
      by (simp add: keptElems_snoc_name dirPart_sep splitSep_append splitSep_no_sep)
  qed
qed

lemma endsInName_not_Nil: "endsInName path \<Longrightarrow> path \<noteq> []"
  by (auto simp: endsInName_def)

lemma parentDir_unfold: "path \<noteq> [] \<Longrightarrow> parentDir path = Clean (path @ PathSeparator # ''..'')"
  by (simp add: parentDir_def Join_def)

lemma keptElems_dotdot:
  assumes "path \<noteq> []"
  shows "keptElems (path @ PathSeparator # ''..'') = cleanElems (IsAbs path) (keptElems path) [''..'']"
proof -
  from assms have "IsAbs (path @ PathSeparator # ''..'') = IsAbs path"
    by (cases path) (auto simp: IsAbs_def)
  then show ?thesis
    by (simp add: keptElems_def splitSep_append splitSep_no_sep cleanElems_append)
qed

text \<open>
  From a path that ends in a name, \<open>Dir\<close> goes to the parent directory, one level up.
\<close>

lemma Dir_parent:
  assumes "endsInName path"
  shows "Dir path = parentDir path" and "dirDepth (Dir path) = dirDepth path - 1"
proof -
  let ?e = "last (splitSep path)"
  let ?K = "keptElems (dirPart path)"
  have ne: "path \<noteq> []"
    using assms by (rule endsInName_not_Nil)
  have k: "keptElems path = ?K @ [?e]" and e: "?e \<noteq> ''..''"
    using keptElems_endsInName [OF assms] by simp_all
  have up: "keptElems (path @ PathSeparator # ''..'') = ?K"
    using e by (simp add: keptElems_dotdot [OF ne] k)
  have "IsAbs (path @ PathSeparator # ''..'') = IsAbs path"
    using ne by (cases path) (auto simp: IsAbs_def)
  then have abs: "IsAbs (path @ PathSeparator # ''..'') = IsAbs (dirPart path)"
    by simp
  have "Clean (path @ PathSeparator # ''..'') = Clean (dirPart path)"
  proof (cases "dirPart path = []")
    case True
    then have "\<not> IsAbs (dirPart path)" and "?K = []"
      by (simp_all add: IsAbs_def)
    with True abs up show ?thesis
      by (simp add: Clean_unfold [of "path @ PathSeparator # ''..''"])
  next
    case False
    with abs up show ?thesis
      by (simp add: Clean_unfold [of "path @ PathSeparator # ''..''"]
          Clean_unfold [of "dirPart path"])
  qed
  then show "Dir path = parentDir path"
    by (simp add: Dir_def parentDir_unfold [OF ne])
  have "dirDepth (Dir path) = dirDepth (dirPart path)"
    by (simp add: Dir_def)
  then show "dirDepth (Dir path) = dirDepth path - 1"
    using e by (simp add: dirDepth_def k)
qed

text \<open>The \<open>Dir\<close> of a rooted path is the root or ends in a name.\<close>

lemma Dir_rooted_form:
  assumes "IsAbs path"
  shows "Dir path = [PathSeparator] \<or> endsInName (Dir path)"
proof -
  let ?d = "dirPart path"
  let ?K = "keptElems ?d"
  from assms have abs: "IsAbs ?d"
    by simp
  then have ne: "?d \<noteq> []"
    by (auto simp: IsAbs_def)
  have c: "Dir path = PathSeparator # joinSep ?K"
    using abs by (simp add: Dir_def Clean_unfold [OF ne])
  show ?thesis
  proof (cases "?K = []")
    case True
    with c show ?thesis by simp
  next
    case False
    have el: "\<forall>e\<in>set ?K. e \<noteq> [] \<and> e \<noteq> ''.'' \<and> PathSeparator \<notin> set e"
      by (rule keptElems_form(1))
    then have "splitSep (joinSep ?K) = ?K"
      using False by (simp add: splitSep_joinSep)
    then have l: "last (splitSep (Dir path)) = last ?K"
      using False by (simp add: c)
    have "last ?K \<in> set ?K"
      using False by simp
    moreover have "''..'' \<notin> set ?K"
      using keptElems_form(2) [of ?d] abs by simp
    ultimately have "last ?K \<noteq> [] \<and> last ?K \<noteq> ''.'' \<and> last ?K \<noteq> ''..''"
      using el by metis
    with l show ?thesis
      by (simp add: endsInName_def)
  qed
qed

section \<open>The shape of the ancestor chain\<close>

lemma iterateLoop_Cons:
  "iterateLoop path = path # (if path \<noteq> Dir path then iterateLoop (Dir path) else [])"
  by (subst iterateLoop.simps) simp

lemma hd_iterateLoop [simp]: "hd (iterateLoop path) = path"
  by (subst iterateLoop_Cons) simp

lemma iterateLoop_not_Nil [simp]: "iterateLoop path \<noteq> []"
  by (subst iterateLoop_Cons) simp

lemma tl_iterateLoop:
  "tl (iterateLoop path) = (if path \<noteq> Dir path then iterateLoop (Dir path) else [])"
  by (subst iterateLoop_Cons) simp

lemma last_iterateLoop: "Dir (last (iterateLoop path)) = last (iterateLoop path)"
proof (induction path rule: iterateLoop.induct)
  case (1 path)
  show ?case
  proof (cases "path \<noteq> Dir path")
    case True
    with 1 show ?thesis
      by (subst (1 2) iterateLoop_Cons) simp
  next
    case False
    then show ?thesis
      by (subst (1 2) iterateLoop_Cons) simp
  qed
qed

lemma last_iterateLoop_value:
  "last (iterateLoop path) = (if IsAbs path then [PathSeparator] else ''.'')"
proof (induction path rule: iterateLoop.induct)
  case (1 path)
  show ?case
  proof (cases "path \<noteq> Dir path")
    case True
    with 1 show ?thesis
      by (subst iterateLoop_Cons) simp
  next
    case False
    then have "path = [PathSeparator] \<or> path = ''.''"
      using Dir_fixed [of path] by simp
    with False show ?thesis
      by (subst iterateLoop_Cons) (auto simp: IsAbs_def)
  qed
qed

lemma successively_iterateLoop:
  assumes "\<And>p. p \<noteq> Dir p \<Longrightarrow> Q p \<Longrightarrow> R p (Dir p)" and "\<And>p. Q p \<Longrightarrow> Q (Dir p)" and "Q path"
  shows "successively R (iterateLoop path)"
  using assms(3)
proof (induction path rule: iterateLoop.induct)
  case (1 path)
  show ?case
  proof (cases "path \<noteq> Dir path")
    case True
    from "1.prems" have "Q (Dir path)"
      by (rule assms(2))
    with 1 True have "successively R (iterateLoop (Dir path))"
      by simp
    moreover have "R path (Dir path)"
      using True "1.prems" by (rule assms(1))
    ultimately show ?thesis
      using True by (subst iterateLoop_Cons) (simp add: successively_Cons)
  next
    case False
    then show ?thesis
      by (subst iterateLoop_Cons) simp
  qed
qed

lemma transp_dirDepth_less: "transp (\<lambda>a b. dirDepth b < dirDepth a)"
  by (auto simp: transp_def)

text \<open>
  A rooted chain that starts at the root or at a path that ends in a name: every step goes
  to the parent directory, and the depth falls.
\<close>

lemma rooted_chain:
  assumes "IsAbs path" and "path = [PathSeparator] \<or> endsInName path"
  shows "successively (\<lambda>a b. b = parentDir a) (iterateLoop path)"
    and "sorted_wrt (\<lambda>a b. dirDepth b < dirDepth a) (iterateLoop path)"
proof -
  let ?Q = "\<lambda>p. IsAbs p \<and> (p = [PathSeparator] \<or> endsInName p)"
  have s: "successively (\<lambda>a b. b = parentDir a \<and> dirDepth b < dirDepth a) (iterateLoop path)"
  proof (rule successively_iterateLoop [where Q = ?Q])
    fix p
    assume "p \<noteq> Dir p" and "?Q p"
    then have "endsInName p"
      by auto
    from Dir_parent [OF this] show "Dir p = parentDir p \<and> dirDepth (Dir p) < dirDepth p"
      by simp
  next
    fix p
    assume "?Q p"
    then show "?Q (Dir p)"
      using Dir_rooted_form [of p] by simp
  next
    show "?Q path"
      using assms by simp
  qed
  from s show "successively (\<lambda>a b. b = parentDir a) (iterateLoop path)"
    by (rule successively_mono) simp
  from s have "successively (\<lambda>a b. dirDepth b < dirDepth a) (iterateLoop path)"
    by (rule successively_mono) simp
  then show "sorted_wrt (\<lambda>a b. dirDepth b < dirDepth a) (iterateLoop path)"
    by (simp add: successively_conv_sorted_wrt [OF transp_dirDepth_less])
qed

lemma rooted_chain_tl:
  assumes "IsAbs path"
  shows "successively (\<lambda>a b. b = parentDir a) (tl (iterateLoop path))"
    and "sorted_wrt (\<lambda>a b. dirDepth b < dirDepth a) (tl (iterateLoop path))"
proof -
  have a: "IsAbs (Dir path)"
    using assms by simp
  have f: "Dir path = [PathSeparator] \<or> endsInName (Dir path)"
    using assms by (rule Dir_rooted_form)
  show "successively (\<lambda>a b. b = parentDir a) (tl (iterateLoop path))"
    using rooted_chain(1) [OF a f] by (simp add: tl_iterateLoop)
  show "sorted_wrt (\<lambda>a b. dirDepth b < dirDepth a) (tl (iterateLoop path))"
    using rooted_chain(2) [OF a f] by (simp add: tl_iterateLoop)
qed

lemma parentDir_root [simp]: "parentDir [PathSeparator] = [PathSeparator]"
  by code_simp

lemma parent_steps_iterateLoop:
  "successively (\<lambda>a b. endsInName a \<longrightarrow> b = parentDir a \<and> dirDepth b = dirDepth a - 1)
     (iterateLoop path)"
proof (rule successively_iterateLoop [where Q = "\<lambda>p. True"])
  fix p
  show "endsInName p \<longrightarrow> Dir p = parentDir p \<and> dirDepth (Dir p) = dirDepth p - 1"
    using Dir_parent [of p] by blast
qed simp_all

subsection \<open>C8: the ancestor chain\<close>

text \<open>
  C8. The claim: for every path, \<open>IterateThroughPath\<close> returns a finite sequence that starts
  with the normalised path, in which each later element is the parent directory of the one
  before, which is strictly decreasing in depth, and whose last element is its own parent.
  The loop takes \<open>filepath.Dir\<close>, which drops the last element of the path as written, and
  \<open>ensureCleanPath\<close> keeps a last element that is empty, \<open>.\<close> or \<open>..\<close>. The chain of
  \<open>/a/..\<close>, which names the root, is \<open>/a/..\<close>, \<open>/a\<close>, \<open>/\<close>: its second element is a
  child of the first, not its parent \<open>/\<close>, and the depth goes from 0 up to 1. The chain of
  \<open>a/\<close> is \<open>a/\<close>, \<open>a\<close>, \<open>.\<close>: its second element names the same directory as the first,
  at the same depth. And a relative chain ends in \<open>.\<close>, whose parent is \<open>..\<close>.
\<close>

theorem C8_counterexample:
  "IterateThroughPath ''/a/..'' = [''/a/..'', ''/a'', ''/'']
     \<and> parentDir ''/a/..'' = ''/''
     \<and> dirDepth ''/a/..'' = 0 \<and> dirDepth ''/a'' = 1
     \<and> IterateThroughPath ''a/'' = [''a/'', ''a'', ''.'']
     \<and> parentDir ''a/'' = ''.''
     \<and> dirDepth ''a/'' = 1 \<and> dirDepth ''a'' = 1
     \<and> parentDir ''.'' = ''..''"
  by code_simp

text \<open>
  C8, amended: for every path, \<open>IterateThroughPath\<close> returns (the model is a total function)
  a non-empty sequence that starts with the normalised path, in which each later element is
  the \<open>filepath.Dir\<close> of the one before, and whose last element is its own \<open>Dir\<close>: the root
  for a rooted normalised path, the dot otherwise. Every step from an element that ends in
  a name (its last element is neither empty nor \<open>.\<close> nor \<open>..\<close>) goes to the parent
  directory of that element, exactly one level up. For a rooted normalised path, from the
  second element on each element is the parent directory of the one before, the depth is
  strictly decreasing, and the last element, the root, is its own parent; and when the
  rooted normalised path is the root or ends in a name, this holds from the first element
  on.
\<close>

theorem C8_ancestor_chain:
  "IterateThroughPath path \<noteq> []
     \<and> hd (IterateThroughPath path) = ensureCleanPath path
     \<and> successively (\<lambda>a b. b = Dir a) (IterateThroughPath path)
     \<and> Dir (last (IterateThroughPath path)) = last (IterateThroughPath path)
     \<and> last (IterateThroughPath path)
         = (if IsAbs (ensureCleanPath path) then [PathSeparator] else ''.'')
     \<and> successively (\<lambda>a b. endsInName a \<longrightarrow> b = parentDir a \<and> dirDepth b = dirDepth a - 1)
          (IterateThroughPath path)
     \<and> (IsAbs (ensureCleanPath path) \<longrightarrow>
           successively (\<lambda>a b. b = parentDir a) (tl (IterateThroughPath path))
         \<and> sorted_wrt (\<lambda>a b. dirDepth b < dirDepth a) (tl (IterateThroughPath path))
         \<and> parentDir (last (IterateThroughPath path)) = last (IterateThroughPath path))
     \<and> (IsAbs (ensureCleanPath path)
          \<and> (ensureCleanPath path = [PathSeparator] \<or> endsInName (ensureCleanPath path)) \<longrightarrow>
           successively (\<lambda>a b. b = parentDir a) (IterateThroughPath path)
         \<and> sorted_wrt (\<lambda>a b. dirDepth b < dirDepth a) (IterateThroughPath path))"
proof -
  let ?p = "ensureCleanPath path"
  have s: "successively (\<lambda>a b. b = Dir a) (iterateLoop ?p)"
    by (rule successively_iterateLoop [where Q = "\<lambda>p. True"]) simp_all
  have l: "last (iterateLoop ?p) = (if IsAbs ?p then [PathSeparator] else ''.'')"
    by (rule last_iterateLoop_value)
  have r: "IsAbs ?p \<Longrightarrow> parentDir (last (iterateLoop ?p)) = last (iterateLoop ?p)"
    by (simp add: l)
  show ?thesis
    unfolding IterateThroughPath_def
    using s l r rooted_chain [of ?p] rooted_chain_tl [of ?p] parent_steps_iterateLoop [of ?p]
      last_iterateLoop [of ?p]
    by simp
qed

theorem C8_witness:
  "IsAbs (ensureCleanPath ''/home/u/proj/src'')
     \<and> endsInName (ensureCleanPath ''/home/u/proj/src'')
     \<and> IterateThroughPath ''/home/u/proj/src''
          = [''/home/u/proj/src'', ''/home/u/proj'', ''/home/u'', ''/home'', ''/'']
     \<and> successively (\<lambda>a b. b = parentDir a)
          [''/home/u/proj/src'', ''/home/u/proj'', ''/home/u'', ''/home'', ''/'']
     \<and> sorted_wrt (\<lambda>a b. dirDepth b < dirDepth a)
          [''/home/u/proj/src'', ''/home/u/proj'', ''/home/u'', ''/home'', ''/'']
     \<and> parentDir ''/'' = ''/''"
proof -
  have a: "IsAbs (ensureCleanPath ''/home/u/proj/src'')"
    and e: "endsInName (ensureCleanPath ''/home/u/proj/src'')"
    by code_simp+
  with C8_ancestor_chain [of "''/home/u/proj/src''"]
  have "successively (\<lambda>a b. b = parentDir a) (IterateThroughPath ''/home/u/proj/src'')"
    and "sorted_wrt (\<lambda>a b. dirDepth b < dirDepth a) (IterateThroughPath ''/home/u/proj/src'')"
    and "parentDir (last (IterateThroughPath ''/home/u/proj/src''))
           = last (IterateThroughPath ''/home/u/proj/src'')"
    by blast+
  then have "successively (\<lambda>a b. b = parentDir a)
               [''/home/u/proj/src'', ''/home/u/proj'', ''/home/u'', ''/home'', ''/'']"
    and "sorted_wrt (\<lambda>a b. dirDepth b < dirDepth a)
               [''/home/u/proj/src'', ''/home/u/proj'', ''/home/u'', ''/home'', ''/'']"
    and "parentDir (last [''/home/u/proj/src'', ''/home/u/proj'', ''/home/u'', ''/home'', ''/''])
           = last [''/home/u/proj/src'', ''/home/u/proj'', ''/home/u'', ''/home'', ''/'']"
    by (simp_all only: chain_projSystem)
  with a e show ?thesis
    by (simp add: chain_projSystem)
qed

end
